theory Spec2Isabelle
  imports Complex_Main "HOL-Library.Sublist" "HOL-Library.Multiset"
begin

section \<open>Data model\<close>

text \<open>
  The TypeScript interfaces \<^verbatim>\<open>Quote\<close> and \<^verbatim>\<open>SimilarityScore\<close> of
  \<^verbatim>\<open>src/types/index.ts\<close>. Field names carry a prefix because \<^verbatim>\<open>id\<close> and
  \<^verbatim>\<open>text\<close> are taken in Isabelle. The optional \<^verbatim>\<open>tags?: string[]\<close> is an option.
  \<^verbatim>\<open>likes\<close> is a natural number: the repository creates quotes with \<^verbatim>\<open>likes: 0\<close> and the
  schema demands \<^verbatim>\<open>min(0)\<close>. The two timestamps \<^verbatim>\<open>createdAt\<close> and \<^verbatim>\<open>updatedAt\<close> are left
  out: no function modelled below reads them.

  A JavaScript \<^verbatim>\<open>number\<close> that holds a score is modelled as an exact real number, so the
  rounding of IEEE doubles is outside this development. A JavaScript string is modelled as
  a list of 8-bit characters, read as the code units 0 to 255.
\<close>

datatype quote_source = quotable | dummyjson | internal

record quote =
  q_id :: string
  q_text :: string
  q_author :: string
  q_tags :: "string list option"
  q_likes :: nat
  q_source :: quote_source

record similarity =
  s_quote :: quote
  s_score :: real

section \<open>String primitives of the JavaScript runtime\<close>

definition lower_char :: "char \<Rightarrow> char" where
  "lower_char c =
     (let n = (of_char c :: nat)
      in if (65 \<le> n \<and> n \<le> 90) \<or> (192 \<le> n \<and> n \<le> 222 \<and> n \<noteq> 215)
         then char_of (n + 32) else c)"

definition toLowerCase :: "string \<Rightarrow> string" where
  "toLowerCase s = map lower_char s"

definition is_space :: "char \<Rightarrow> bool" where
  \<comment> \<open>the class \<^verbatim>\<open>\s\<close> and the characters removed by \<^verbatim>\<open>trim\<close>, below code unit 256\<close>
  "is_space c = ((of_char c :: nat) \<in> {9, 10, 11, 12, 13, 32, 160})"

definition is_word :: "char \<Rightarrow> bool" where
  \<comment> \<open>the class \<^verbatim>\<open>\w\<close>: letters, digits and the underscore\<close>
  "is_word c =
     (let n = (of_char c :: nat)
      in (48 \<le> n \<and> n \<le> 57) \<or> (65 \<le> n \<and> n \<le> 90) \<or> n = 95 \<or> (97 \<le> n \<and> n \<le> 122))"

definition trim :: "string \<Rightarrow> string" where
  "trim s = rev (dropWhile is_space (rev (dropWhile is_space s)))"

text \<open>
  \<^verbatim>\<open>s.split(/\s+/)\<close>: every maximal run of white space separates two pieces, so a
  leading or a trailing run yields an empty piece and the empty string yields one empty
  piece. The flag says whether the scan is inside a run of white space.
\<close>

fun split_ws :: "bool \<Rightarrow> string \<Rightarrow> string \<Rightarrow> string list" where
  "split_ws inws cur [] = [rev cur]"
| "split_ws inws cur (c # cs) =
     (if is_space c
      then (if inws then split_ws True cur cs else rev cur # split_ws True [] cs)
      else split_ws False (c # cur) cs)"

definition indexOf :: "'a list \<Rightarrow> 'a \<Rightarrow> int" where
  "indexOf xs x =
     (if x \<in> set xs then int (length (takeWhile (\<lambda>y. y \<noteq> x) xs)) else - 1)"

definition str_includes :: "string \<Rightarrow> string \<Rightarrow> bool" where
  \<comment> \<open>\<^verbatim>\<open>s.includes(t)\<close>: \<open>t\<close> occurs in \<open>s\<close> as a contiguous piece\<close>
  "str_includes s t = sublist t s"

definition slice0 :: "'a list \<Rightarrow> int \<Rightarrow> 'a list" where
  \<comment> \<open>\<^verbatim>\<open>xs.slice(0, n)\<close>: a negative end counts from the end of the array\<close>
  "slice0 xs n =
     (if n < 0 then take (nat (int (length xs) + n)) xs else take (nat n) xs)"

section \<open>SimilarityEngine\<close>

definition MINIMUM_SIMILARITY_SCORE :: real where
  "MINIMUM_SIMILARITY_SCORE = 8 / 100"

definition KEYWORD_WEIGHT :: real where
  "KEYWORD_WEIGHT = 4 / 10"

definition SEMANTIC_WEIGHT :: real where
  "SEMANTIC_WEIGHT = 6 / 10"

definition stopWords :: "string list" where
  "stopWords =
    [''the'', ''a'', ''an'', ''and'', ''or'', ''but'', ''in'', ''on'', ''at'', ''to'', ''for'',
     ''of'', ''with'', ''by'', ''is'', ''are'', ''was'', ''were'', ''be'', ''been'', ''being'',
     ''have'', ''has'', ''had'', ''do'', ''does'', ''did'', ''will'', ''would'', ''could'',
     ''should'', ''may'', ''might'', ''must'', ''can'', ''shall'', ''this'', ''that'', ''these'',
     ''those'', ''i'', ''you'', ''he'', ''she'', ''it'', ''we'', ''they'', ''me'', ''him'', ''her'',
     ''us'', ''them'', ''my'', ''your'', ''his'', ''her'', ''its'', ''our'', ''their'', ''not'',
     ''no'', ''yes'']"

definition keep_first :: "'a list \<Rightarrow> 'a list" where
  \<comment> \<open>\<^verbatim>\<open>arr.filter((word, index, arr) => arr.indexOf(word) === index)\<close>\<close>
  "keep_first arr = map (\<lambda>i. arr ! i) (filter (\<lambda>i. indexOf arr (arr ! i) = int i) [0..<length arr])"

definition extractKeywords :: "string \<Rightarrow> string list" where
  "extractKeywords txt =
     keep_first
       (filter (\<lambda>word. length word > 2 \<and> word \<notin> set stopWords)
          (split_ws False []
             (filter (\<lambda>c. is_word c \<or> is_space c) (toLowerCase txt))))"

definition calculateKeywordSimilarity :: "quote \<Rightarrow> quote \<Rightarrow> real" where
  "calculateKeywordSimilarity quote1 quote2 =
     (let keywords1 = extractKeywords (q_text quote1);
          keywords2 = extractKeywords (q_text quote2)
      in if length keywords1 = 0 \<and> length keywords2 = 0 then 0
         else
           let intersection = filter (\<lambda>keyword. keyword \<in> set keywords2) keywords1;
               union = remdups (keywords1 @ keywords2)
           in real (length intersection) / real (length union))"

subsection \<open>Levenshtein distance\<close>

text \<open>
  The matrix is an array of \<open>str2.length + 1\<close> rows of \<open>str1.length + 1\<close> cells, filled with
  \<^verbatim>\<open>null\<close>. No cell is read before it is written; \<^verbatim>\<open>null\<close> is modelled as 0, the value
  JavaScript arithmetic gives it. The three loops are folds over their index ranges.
\<close>

definition set_cell :: "nat list list \<Rightarrow> nat \<Rightarrow> nat \<Rightarrow> nat \<Rightarrow> nat list list" where
  \<comment> \<open>\<^verbatim>\<open>matrix[j][i] = v\<close>\<close>
  "set_cell matrix j i v = matrix[j := (matrix ! j)[i := v]]"

definition cell_step :: "'a list \<Rightarrow> 'a list \<Rightarrow> nat \<Rightarrow> nat \<Rightarrow> nat list list \<Rightarrow> nat list list" where
  "cell_step str1 str2 j i matrix =
     (let indicator = (if str1 ! (i - 1) = str2 ! (j - 1) then 0 else 1)
      in set_cell matrix j i
           (min (min (matrix ! j ! (i - 1) + 1) (matrix ! (j - 1) ! i + 1))
                (matrix ! (j - 1) ! (i - 1) + indicator)))"

definition calculateLevenshteinDistance :: "'a list \<Rightarrow> 'a list \<Rightarrow> nat" where
  "calculateLevenshteinDistance str1 str2 =
     (let matrix = replicate (length str2 + 1) (replicate (length str1 + 1) 0);
          matrix = fold (\<lambda>i m. set_cell m 0 i i) [0..<length str1 + 1] matrix;
          matrix = fold (\<lambda>j m. set_cell m j 0 j) [0..<length str2 + 1] matrix;
          matrix = fold (\<lambda>j m. fold (cell_step str1 str2 j) [1..<length str1 + 1] m)
                     [1..<length str2 + 1] matrix
      in matrix ! length str2 ! length str1)"

subsection \<open>Author, tag and length similarity\<close>

definition calculateAuthorSimilarity :: "string \<Rightarrow> string \<Rightarrow> real" where
  "calculateAuthorSimilarity author1 author2 =
     (let name1 = trim (toLowerCase author1);
          name2 = trim (toLowerCase author2)
      in if name1 = name2 then 1
         else if str_includes name1 name2 \<or> str_includes name2 name1 then 8 / 10
         else
           let maxLength = max (length name1) (length name2);
               distance = calculateLevenshteinDistance name1 name2
           in max 0 ((real maxLength - real distance) / real maxLength))"

definition calculateTagSimilarity :: "string list \<Rightarrow> string list \<Rightarrow> real" where
  "calculateTagSimilarity tags1 tags2 =
     (if length tags1 = 0 \<and> length tags2 = 0 then 5 / 10
      else if length tags1 = 0 \<or> length tags2 = 0 then 0
      else
        let normalizedTags1 = map toLowerCase tags1;
            normalizedTags2 = map toLowerCase tags2;
            intersection = filter (\<lambda>tag. tag \<in> set normalizedTags2) normalizedTags1;
            union = remdups (normalizedTags1 @ normalizedTags2)
        in real (length intersection) / real (length union))"

definition calculateLengthSimilarity :: "string \<Rightarrow> string \<Rightarrow> real" where
  "calculateLengthSimilarity text1 text2 =
     (let len1 = length text1;
          len2 = length text2;
          maxLength = max len1 len2;
          minLength = min len1 len2
      in if maxLength = 0 then 1 else real minLength / real maxLength)"

definition tags_or_empty :: "quote \<Rightarrow> string list" where
  \<comment> \<open>\<^verbatim>\<open>quote.tags || []\<close>\<close>
  "tags_or_empty q = (case q_tags q of None \<Rightarrow> [] | Some ts \<Rightarrow> ts)"

definition calculateSemanticSimilarity :: "quote \<Rightarrow> quote \<Rightarrow> real" where
  "calculateSemanticSimilarity quote1 quote2 =
     (let semanticScore = 0;
          totalWeight = 0;
          authorWeight = 5 / 10;
          semanticScore =
            (if toLowerCase (q_author quote1) = toLowerCase (q_author quote2)
             then semanticScore + (9 / 10) * authorWeight
             else
               let authorSim = calculateAuthorSimilarity (q_author quote1) (q_author quote2)
               in if authorSim > 7 / 10 then semanticScore + authorSim * authorWeight
                  else semanticScore);
          totalWeight = totalWeight + authorWeight;
          tagWeight = 3 / 10;
          tagSimilarity = calculateTagSimilarity (tags_or_empty quote1) (tags_or_empty quote2);
          semanticScore = semanticScore + tagSimilarity * tagWeight;
          totalWeight = totalWeight + tagWeight;
          lengthWeight = 2 / 10;
          lengthSimilarity = calculateLengthSimilarity (q_text quote1) (q_text quote2);
          semanticScore = semanticScore + lengthSimilarity * lengthWeight;
          totalWeight = totalWeight + lengthWeight
      in if totalWeight > 0 then semanticScore / totalWeight else 0)"

definition calculateOverallSimilarity :: "quote \<Rightarrow> quote \<Rightarrow> real" where
  "calculateOverallSimilarity quote1 quote2 =
     (let keywordSimilarity = calculateKeywordSimilarity quote1 quote2;
          semanticSimilarity = calculateSemanticSimilarity quote1 quote2
      in (keywordSimilarity * KEYWORD_WEIGHT) + (semanticSimilarity * SEMANTIC_WEIGHT))"

subsection \<open>Ranking\<close>

text \<open>
  The loop of \<^verbatim>\<open>findSimilarQuotes\<close> pushes onto \<^verbatim>\<open>similarities\<close>; the accumulator is that
  array. \<^verbatim>\<open>Array.prototype.sort\<close> is a stable sort, and the comparator
  \<^verbatim>\<open>(a, b) => b.score - a.score\<close> orders by descending score: it is modelled by the
  stable insertion sort of the library on the negated score.

  The function is written once with its arithmetic as parameters: \<open>overall\<close> stands for
  \<^verbatim>\<open>this.calculateOverallSimilarity\<close> and \<open>minimum\<close> for \<^verbatim>\<open>this.MINIMUM_SIMILARITY_SCORE\<close>.
  A double is a real number, and on doubles the comparison \<^verbatim>\<open>>=\<close> and the sign of a
  difference are those of the real numbers, so at the doubles that the code computes
  \<open>findSimilarQuotes_with\<close> is the function of the source. \<open>findSimilarQuotes\<close> is its
  instance at the exact score and the exact minimum 0.08. The instance departs from the code
  where rounding moves a score across the minimum or splits a tie of exact scores; what is
  proved of \<open>findSimilarQuotes_with\<close> holds of both.
\<close>

fun collect_similarities_with ::
  "(quote \<Rightarrow> quote \<Rightarrow> real) \<Rightarrow> real \<Rightarrow> quote \<Rightarrow> quote list \<Rightarrow> similarity list \<Rightarrow> similarity list" where
  "collect_similarities_with overall minimum targetQuote [] similarities = similarities"
| "collect_similarities_with overall minimum targetQuote (candidate # rest) similarities =
     (if q_id candidate = q_id targetQuote
      then collect_similarities_with overall minimum targetQuote rest similarities
      else
        let score = overall targetQuote candidate
        in if score \<ge> minimum
           then collect_similarities_with overall minimum targetQuote rest
                  (similarities @ [\<lparr>s_quote = candidate, s_score = score\<rparr>])
           else collect_similarities_with overall minimum targetQuote rest similarities)"

definition findSimilarQuotes_with ::
  "(quote \<Rightarrow> quote \<Rightarrow> real) \<Rightarrow> real \<Rightarrow> quote \<Rightarrow> quote list \<Rightarrow> int \<Rightarrow> similarity list" where
  "findSimilarQuotes_with overall minimum targetQuote candidateQuotes limit =
     (let similarities = collect_similarities_with overall minimum targetQuote candidateQuotes []
      in slice0 (sort_key (\<lambda>s. - s_score s) similarities) limit)"

definition findSimilarQuotes :: "quote \<Rightarrow> quote list \<Rightarrow> int \<Rightarrow> similarity list" where
  "findSimilarQuotes targetQuote candidateQuotes limit =
     findSimilarQuotes_with calculateOverallSimilarity MINIMUM_SIMILARITY_SCORE
       targetQuote candidateQuotes limit"

section \<open>Reference definitions in the words of the specification\<close>

text \<open>
  The classic dynamic-programming recurrence of the edit distance: \<open>lev_rec a b i j\<close> is the
  distance between the first \<open>i\<close> characters of \<open>a\<close> and the first \<open>j\<close> characters of \<open>b\<close>,
  with cost 1 for a deletion, an insertion and a substitution.
\<close>

fun lev_rec :: "'a list \<Rightarrow> 'a list \<Rightarrow> nat \<Rightarrow> nat \<Rightarrow> nat" where
  "lev_rec a b 0 j = j"
| "lev_rec a b (Suc i) 0 = Suc i"
| "lev_rec a b (Suc i) (Suc j) =
     min (min (lev_rec a b i (Suc j) + 1) (lev_rec a b (Suc i) j + 1))
         (lev_rec a b i j + (if a ! i = b ! j then 0 else 1))"

definition spec_editDistance :: "'a list \<Rightarrow> 'a list \<Rightarrow> nat" where
  "spec_editDistance a b = lev_rec a b (length a) (length b)"

text \<open>
  The distance as a least number of operations: \<open>edit_cost a b n\<close> holds when \<open>b\<close> is
  obtained from \<open>a\<close> by \<open>n\<close> deletions, insertions and substitutions of single characters,
  laid out as an alignment of the two strings that grows at their right end.
\<close>

inductive edit_cost :: "'a list \<Rightarrow> 'a list \<Rightarrow> nat \<Rightarrow> bool" where
  cost_nil: "edit_cost [] [] 0"
| cost_delete: "edit_cost a b n \<Longrightarrow> edit_cost (a @ [x]) b (Suc n)"
| cost_insert: "edit_cost a b n \<Longrightarrow> edit_cost a (b @ [y]) (Suc n)"
| cost_substitute: "edit_cost a b n \<Longrightarrow> edit_cost (a @ [x]) (b @ [y]) (n + (if x = y then 0 else 1))"

text \<open>
  The author similarity in the words of the claim: 1 on an exact case-insensitive match,
  else 0.8 when one normalised name occurs in the other, else the ratio.
\<close>

definition spec_authorSimilarity :: "string \<Rightarrow> string \<Rightarrow> real" where
  "spec_authorSimilarity a b =
     (if toLowerCase a = toLowerCase b then 1
      else
        let n1 = trim (toLowerCase a); n2 = trim (toLowerCase b);
            maxLen = max (length n1) (length n2)
        in if sublist n1 n2 \<or> sublist n2 n1 then 8 / 10
           else max 0 ((real maxLen - real (spec_editDistance n1 n2)) / real maxLen))"

text \<open>
  The normalised name, said without \<open>trim\<close>: the lower-cased name is \<open>n\<close> between two runs
  of white space, and \<open>n\<close> neither begins nor ends with white space. The amended rule
  compares the normalised names.
\<close>

definition normalised_name :: "string \<Rightarrow> string \<Rightarrow> bool" where
  "normalised_name a n \<longleftrightarrow>
     (\<exists>pre post. toLowerCase a = pre @ n @ post \<and>
        list_all is_space pre \<and> list_all is_space post \<and>
        (n = [] \<or> (\<not> is_space (hd n) \<and> \<not> is_space (last n))))"

definition amended_authorSimilarity :: "string \<Rightarrow> string \<Rightarrow> real" where
  "amended_authorSimilarity n1 n2 =
     (let maxLen = max (length n1) (length n2)
      in if n1 = n2 then 1
         else if sublist n1 n2 \<or> sublist n2 n1 then 8 / 10
         else max 0 ((real maxLen - real (spec_editDistance n1 n2)) / real maxLen))"




definition spec_authorScore :: "quote \<Rightarrow> quote \<Rightarrow> real" where
  "spec_authorScore q1 q2 =
     (if toLowerCase (q_author q1) = toLowerCase (q_author q2) then 9 / 10
      else if calculateAuthorSimilarity (q_author q1) (q_author q2) > 7 / 10
           then calculateAuthorSimilarity (q_author q1) (q_author q2)
           else 0)"





definition kept_candidates_with ::
  "(quote \<Rightarrow> quote \<Rightarrow> real) \<Rightarrow> real \<Rightarrow> quote \<Rightarrow> quote list \<Rightarrow> similarity list" where
  \<comment> \<open>the candidates of the pool, in pool order, that are not the target and reach the
      minimum score, each with its score\<close>
  "kept_candidates_with overall minimum t pool =
     map (\<lambda>c. \<lparr>s_quote = c, s_score = overall t c\<rparr>)
       (filter (\<lambda>c. q_id c \<noteq> q_id t \<and> minimum \<le> overall t c) pool)"

definition kept_candidates :: "quote \<Rightarrow> quote list \<Rightarrow> similarity list" where
  "kept_candidates t pool =
     kept_candidates_with calculateOverallSimilarity MINIMUM_SIMILARITY_SCORE t pool"

text \<open>
  A well-formed quote, as the data model of the specification and \<^verbatim>\<open>QuoteSchema\<close> describe
  it: a text of 1 to 1000 characters, an author of 1 to 255 characters, and at most 10 tags
  that form a set of lower-case strings of 1 to 50 characters each. The bounds are those
  of \<^verbatim>\<open>QuoteSchema\<close>; that the tags are lower-case and free of duplicates is what the
  sanitizer of ingested quotes establishes, by its tests in
  \<^verbatim>\<open>src/utils/quoteTransformers.test.ts\<close>.
\<close>

definition well_formed :: "quote \<Rightarrow> bool" where
  "well_formed q \<longleftrightarrow>
     1 \<le> length (q_text q) \<and> length (q_text q) \<le> 1000 \<and>
     1 \<le> length (q_author q) \<and> length (q_author q) \<le> 255 \<and>
     length (tags_or_empty q) \<le> 10 \<and> distinct (tags_or_empty q) \<and>
     list_all (\<lambda>t. 1 \<le> length t \<and> length t \<le> 50 \<and> toLowerCase t = t) (tags_or_empty q)"

definition mat_inv :: "'a list \<Rightarrow> 'a list \<Rightarrow> nat list list \<Rightarrow> nat \<Rightarrow> nat \<Rightarrow> bool" where
  \<comment> \<open>the loop invariant of the matrix: the border, every row above \<open>J\<close> and the cells of
      row \<open>J\<close> left of column \<open>I\<close> hold the value of the recurrence\<close>
  "mat_inv a b m J I \<longleftrightarrow>
     length m = length b + 1 \<and>
     (\<forall>r \<le> length b. length (m ! r) = length a + 1) \<and>
     (\<forall>r c. r \<le> length b \<and> c \<le> length a \<and> (r = 0 \<or> c = 0 \<or> r < J \<or> (r = J \<and> c < I))
        \<longrightarrow> m ! r ! c = lev_rec a b c r)"

section \<open>Collaborators: the database, Redis and the random number generator\<close>

text \<open>
  \<^verbatim>\<open>ErrorCode\<close> and \<^verbatim>\<open>QuoteServiceError\<close> of \<^verbatim>\<open>src/types/index.ts\<close>; an error carries its
  code and its HTTP status. A thrown error is the left injection of a sum.
\<close>

datatype ErrorCode =
  QUOTE_NOT_FOUND | EXTERNAL_API_ERROR | VALIDATION_ERROR | RATE_LIMIT_EXCEEDED | DATABASE_ERROR

datatype error = QuoteServiceError ErrorCode nat

text \<open>
  A call to Prisma or to Redis may throw. Which calls throw during one request is an
  input of the model: the database by operation, Redis by operation and key.
\<close>

datatype db_op =
  OpFindById | OpFindAll | OpFindMany | OpExists | OpIncrementLikes | OpGetCachedSimilarities

datatype redis_op = OpGet | OpSet | OpDel

record faults =
  db_fails :: "db_op \<Rightarrow> bool"
  redis_fails :: "redis_op \<Rightarrow> string \<Rightarrow> bool"

definition no_faults :: faults where
  "no_faults = \<lparr>db_fails = (\<lambda>_. False), redis_fails = (\<lambda>_ _. False)\<rparr>"

text \<open>
  A Redis value is the JSON text of a quote, of a list of quotes or of a list of
  similarity scores; the round trip through \<^verbatim>\<open>JSON.stringify\<close> and \<^verbatim>\<open>JSON.parse\<close> is the
  identity on them. The expiry of a key is not modelled: a key that has expired is a key
  that is absent. The table \<^verbatim>\<open>quote_similarities\<close> holds rows of a quote id, the id of a
  similar quote and a score; the table \<^verbatim>\<open>quotes\<close> holds the quotes in storage order.
\<close>

datatype cache_value =
  CachedQuote quote | CachedQuotes "quote list" | CachedSimilar "similarity list"

record world =
  db_quotes :: "quote list"
  db_similarity :: "(string \<times> string \<times> real) list"
  redis :: "string \<rightharpoonup> cache_value"

subsection \<open>QuoteRepository\<close>

definition database_error :: error where
  "database_error = QuoteServiceError DATABASE_ERROR 500"

definition findById :: "faults \<Rightarrow> world \<Rightarrow> string \<Rightarrow> error + quote option" where
  "findById f w ident =
     (if db_fails f OpFindById then Inl database_error
      else Inr (find (\<lambda>q. q_id q = ident) (db_quotes w)))"

definition quote_exists :: "faults \<Rightarrow> world \<Rightarrow> string \<Rightarrow> error + bool" where
  "quote_exists f w ident =
     (if db_fails f OpExists then Inl database_error
      else let count = length (filter (\<lambda>q. q_id q = ident) (db_quotes w))
           in Inr (count > 0))"

definition findAll :: "faults \<Rightarrow> world \<Rightarrow> error + quote list" where
  \<comment> \<open>\<^verbatim>\<open>orderBy: { likes: 'desc' }\<close>; rows with equal likes keep their storage order\<close>
  "findAll f w =
     (if db_fails f OpFindAll then Inl database_error
      else Inr (sort_key (\<lambda>q. - int (q_likes q)) (db_quotes w)))"

definition incrementLikes :: "faults \<Rightarrow> world \<Rightarrow> string \<Rightarrow> (error + quote) \<times> world" where
  "incrementLikes f w ident =
     (if db_fails f OpIncrementLikes then (Inl database_error, w)
      else case find (\<lambda>q. q_id q = ident) (db_quotes w) of
             None \<Rightarrow> (Inl (QuoteServiceError QUOTE_NOT_FOUND 404), w)
           | Some q \<Rightarrow>
               (Inr (q\<lparr>q_likes := q_likes q + 1\<rparr>),
                w\<lparr>db_quotes :=
                     map (\<lambda>r. if q_id r = ident then r\<lparr>q_likes := q_likes r + 1\<rparr> else r)
                       (db_quotes w)\<rparr>))"

text \<open>
  \<^verbatim>\<open>getCachedSimilarities\<close> reads the rows of one quote from \<^verbatim>\<open>quote_similarities\<close>, joined
  with the similar quote, by descending score, at most \<open>limit\<close> of them. A foreign key ties
  every row to its similar quote; a row without one is skipped. It is the only reader of
  that table in the repository, and no function of \<^verbatim>\<open>QuoteService\<close> calls it.
\<close>

definition getCachedSimilarities ::
  "faults \<Rightarrow> world \<Rightarrow> string \<Rightarrow> nat \<Rightarrow> error + similarity list" where
  "getCachedSimilarities f w quoteId limit =
     (if db_fails f OpGetCachedSimilarities then Inl database_error
      else Inr (List.map_filter
                  (\<lambda>(a, b, sc). map_option (\<lambda>q. \<lparr>s_quote = q, s_score = sc\<rparr>)
                                   (find (\<lambda>q. q_id q = b) (db_quotes w)))
                  (take limit
                     (sort_key (\<lambda>(a, b, sc). - sc)
                        (filter (\<lambda>(a, b, sc). a = quoteId) (db_similarity w))))))"

subsection \<open>Weighted random selection\<close>







definition cumulative_weight :: "quote list \<Rightarrow> nat \<Rightarrow> real" where
  \<comment> \<open>the total weight of the first \<open>k\<close> candidates\<close>
  "cumulative_weight quotes k = sum_list (map (\<lambda>q. real (q_likes q + 1)) (take k quotes))"

subsection \<open>CacheService\<close>

definition QUOTE_PREFIX :: string where
  "QUOTE_PREFIX = ''quote:''"

definition RANDOM_QUOTE_KEY :: string where
  "RANDOM_QUOTE_KEY = ''random_quotes''"

definition SIMILAR_QUOTES_PREFIX :: string where
  "SIMILAR_QUOTES_PREFIX = ''similar:''"

text \<open>
  A failing Redis call and a value that is not a list of similarity scores both end in the
  \<^verbatim>\<open>catch\<close> branch, which returns \<^verbatim>\<open>null\<close>. The empty array is the one list of quotes that
  \<^verbatim>\<open>parsed.map\<close> accepts.
\<close>

definition cache_getSimilarQuotes :: "faults \<Rightarrow> world \<Rightarrow> string \<Rightarrow> similarity list option" where
  "cache_getSimilarQuotes f w quoteId =
     (let key = SIMILAR_QUOTES_PREFIX @ quoteId
      in if redis_fails f OpGet key then None
         else case redis w key of
                None \<Rightarrow> None
              | Some (CachedSimilar xs) \<Rightarrow> Some xs
              | Some (CachedQuotes qs) \<Rightarrow> (if qs = [] then Some [] else None)
              | Some (CachedQuote q) \<Rightarrow> None)"

definition cache_setSimilarQuotes :: "faults \<Rightarrow> world \<Rightarrow> string \<Rightarrow> similarity list \<Rightarrow> world" where
  "cache_setSimilarQuotes f w quoteId similarQuotes =
     (let cacheKey = SIMILAR_QUOTES_PREFIX @ quoteId
      in if redis_fails f OpSet cacheKey then w
         else w\<lparr>redis := (redis w)(cacheKey \<mapsto> CachedSimilar similarQuotes)\<rparr>)"

definition invalidateQuote :: "faults \<Rightarrow> world \<Rightarrow> string \<Rightarrow> world" where
  "invalidateQuote f w ident =
     (if redis_fails f OpDel (QUOTE_PREFIX @ ident) then w
      else
        let w1 = w\<lparr>redis := (redis w)(QUOTE_PREFIX @ ident := None)\<rparr>
        in if redis_fails f OpDel (SIMILAR_QUOTES_PREFIX @ ident) then w1
           else w1\<lparr>redis := (redis w1)(SIMILAR_QUOTES_PREFIX @ ident := None)\<rparr>)"

definition invalidateRandomQuotes :: "faults \<Rightarrow> world \<Rightarrow> world" where
  "invalidateRandomQuotes f w =
     (if redis_fails f OpDel RANDOM_QUOTE_KEY then w
      else w\<lparr>redis := (redis w)(RANDOM_QUOTE_KEY := None)\<rparr>)"

subsection \<open>QuoteService\<close>

definition validation_error :: error where
  "validation_error = QuoteServiceError VALIDATION_ERROR 400"

definition not_found_error :: error where
  "not_found_error = QuoteServiceError QUOTE_NOT_FOUND 404"

definition blank_id :: "string \<Rightarrow> bool" where
  \<comment> \<open>\<^verbatim>\<open>!id || typeof id !== 'string' || id.trim().length === 0\<close>\<close>
  "blank_id ident \<longleftrightarrow> ident = [] \<or> length (trim ident) = 0"

text \<open>
  The outer \<^verbatim>\<open>catch\<close> of \<^verbatim>\<open>getSimilarQuotes\<close> and of \<^verbatim>\<open>likeQuote\<close> rethrows a
  \<^verbatim>\<open>QuoteServiceError\<close> as it is, and every error of the model is one. The test
  \<^verbatim>\<open>cachedSimilarities && cachedSimilarities.length > 0\<close> is the pattern of a list that is
  not empty.
\<close>

definition getSimilarQuotes ::
  "faults \<Rightarrow> world \<Rightarrow> string \<Rightarrow> int \<Rightarrow> (error + similarity list) \<times> world" where
  "getSimilarQuotes f w ident limit =
     (if blank_id ident then (Inl validation_error, w)
      else if limit \<le> 0 \<or> limit > 50 then (Inl validation_error, w)
      else
        let trimmedId = trim ident
        in case findById f w trimmedId of
             Inl e \<Rightarrow> (Inl e, w)
           | Inr None \<Rightarrow> (Inl not_found_error, w)
           | Inr (Some targetQuote) \<Rightarrow>
               (case cache_getSimilarQuotes f w trimmedId of
                  Some (c # cs) \<Rightarrow> (Inr (slice0 (c # cs) limit), w)
                | _ \<Rightarrow>
                    (case findAll f w of
                       Inl e \<Rightarrow> (Inl e, w)
                     | Inr allQuotes \<Rightarrow>
                         let similarities = findSimilarQuotes targetQuote allQuotes limit
                         in (Inr similarities,
                             cache_setSimilarQuotes f w trimmedId similarities))))"

definition likeQuote :: "faults \<Rightarrow> world \<Rightarrow> string \<Rightarrow> (error + quote) \<times> world" where
  "likeQuote f w ident =
     (if blank_id ident then (Inl validation_error, w)
      else case quote_exists f w (trim ident) of
             Inl e \<Rightarrow> (Inl e, w)
           | Inr False \<Rightarrow> (Inl not_found_error, w)
           | Inr True \<Rightarrow>
               (case incrementLikes f w (trim ident) of
                  (Inl e, w1) \<Rightarrow> (Inl e, w1)
                | (Inr updatedQuote, w1) \<Rightarrow>
                    let w2 = invalidateQuote f w1 (q_id updatedQuote);
                        w3 = invalidateRandomQuotes f w2
                    in (Inr updatedQuote, w3)))"

section \<open>Example data\<close>

definition quote_t :: quote where
  "quote_t = \<lparr>q_id = ''t'', q_text = ''abc'', q_author = ''x'', q_tags = None,
              q_likes = 0, q_source = internal\<rparr>"

definition quote_b :: quote where
  "quote_b = \<lparr>q_id = ''b'', q_text = ''abc'', q_author = ''x'', q_tags = None,
              q_likes = 5, q_source = internal\<rparr>"

definition quote_c :: quote where
  "quote_c = \<lparr>q_id = ''c'', q_text = ''abc def'', q_author = ''x'', q_tags = None,
              q_likes = 1, q_source = internal\<rparr>"

definition quote_h1 :: quote where
  "quote_h1 = \<lparr>q_id = ''h1'', q_text = ''Hard work beats talent'', q_author = ''A'',
               q_tags = Some [''work''], q_likes = 0, q_source = internal\<rparr>"

definition quote_h2 :: quote where
  "quote_h2 = \<lparr>q_id = ''h2'', q_text = ''Talent without hard work is nothing'', q_author = ''A'',
               q_tags = Some [''work''], q_likes = 0, q_source = internal\<rparr>"

definition quote_d1 :: quote where
  \<comment> \<open>a quote whose tag list repeats a tag\<close>
  "quote_d1 = \<lparr>q_id = ''d1'', q_text = ''abc'', q_author = ''x'',
               q_tags = Some [''a'', ''a''], q_likes = 0, q_source = internal\<rparr>"

definition quote_d2 :: quote where
  "quote_d2 = \<lparr>q_id = ''d2'', q_text = ''abc'', q_author = ''x'',
               q_tags = Some [''a''], q_likes = 0, q_source = internal\<rparr>"

definition world0 :: world where
  \<comment> \<open>three quotes, Redis empty, one row for \<open>quote_t\<close> in \<^verbatim>\<open>quote_similarities\<close>\<close>
  "world0 = \<lparr>db_quotes = [quote_t, quote_b, quote_c],
             db_similarity = [(''t'', ''c'', 1 / 2)],
             redis = Map.empty\<rparr>"

definition world1 :: world where
  \<comment> \<open>\<open>world0\<close> with a ranking of one entry cached in Redis for \<open>quote_t\<close>\<close>
  "world1 = world0\<lparr>redis := [''similar:t'' \<mapsto> CachedSimilar [\<lparr>s_quote = quote_b, s_score = 22 / 25\<rparr>]]\<rparr>"

definition findAll_down :: faults where
  \<comment> \<open>only the fetch of the pool fails\<close>
  "findAll_down = \<lparr>db_fails = (\<lambda>op. op = OpFindAll), redis_fails = (\<lambda>_ _. False)\<rparr>"

definition redis_down :: faults where
  \<comment> \<open>every Redis call fails\<close>
  "redis_down = \<lparr>db_fails = (\<lambda>_. False), redis_fails = (\<lambda>_ _. True)\<rparr>"

section \<open>The matrix computes the recurrence\<close>

lemma lev_rec_zero_right [simp]: "lev_rec a b c 0 = c"
  by (cases c) simp_all

lemma set_cell_length [simp]: "length (set_cell m j i v) = length m"
  by (simp add: set_cell_def)

lemma set_cell_row_length [simp]: "length (set_cell m j i v ! r) = length (m ! r)"
  by (cases "j < length m") (simp_all add: set_cell_def nth_list_update list_update_beyond)

lemma set_cell_nth:
  "j < length m \<Longrightarrow> i < length (m ! j) \<Longrightarrow>
   set_cell m j i v ! r ! c = (if r = j \<and> c = i then v else m ! r ! c)"
  by (simp add: set_cell_def nth_list_update)

lemma mat_inv_cell:
  assumes inv: "mat_inv a b m J I"
    and J: "1 \<le> J" "J \<le> length b" and I: "1 \<le> I" "I \<le> length a"
  shows "mat_inv a b (cell_step a b J I m) J (Suc I)"
proof -
  obtain j i where ji: "J = Suc j" "I = Suc i"
    using J I by (metis One_nat_def Suc_le_D)
  have dims: "J < length m" "I < length (m ! J)"
    using inv J I by (simp_all add: mat_inv_def)
  have v1: "m ! J ! i = lev_rec a b i J"
    using inv J I ji by (simp add: mat_inv_def)
  have v2: "m ! j ! I = lev_rec a b I j"
    using inv J I ji by (simp add: mat_inv_def)
  have v3: "m ! j ! i = lev_rec a b i j"
    using inv J I ji by (simp add: mat_inv_def)
  let ?v = "min (min (m ! J ! (I - 1) + 1) (m ! (J - 1) ! I + 1))
                (m ! (J - 1) ! (I - 1) + (if a ! (I - 1) = b ! (J - 1) then 0 else 1))"
  have step: "cell_step a b J I m = set_cell m J I ?v"
    by (simp add: cell_step_def Let_def)
  have val: "?v = lev_rec a b I J"
    using v1 v2 v3 ji by simp
  show ?thesis
    unfolding mat_inv_def step
  proof (intro conjI allI impI)
    show "length (set_cell m J I ?v) = length b + 1"
      using inv by (simp add: mat_inv_def)
  next
    fix r assume "r \<le> length b"
    then show "length (set_cell m J I ?v ! r) = length a + 1"
      using inv by (simp add: mat_inv_def)
  next
    fix r c
    assume h: "r \<le> length b \<and> c \<le> length a \<and> (r = 0 \<or> c = 0 \<or> r < J \<or> r = J \<and> c < Suc I)"
    show "set_cell m J I ?v ! r ! c = lev_rec a b c r"
    proof (cases "r = J \<and> c = I")
      case True
      then show ?thesis using dims val by (simp add: set_cell_nth)
    next
      case False
      then have "r = 0 \<or> c = 0 \<or> r < J \<or> (r = J \<and> c < I)"
        using h by auto
      then have "m ! r ! c = lev_rec a b c r"
        using inv h unfolding mat_inv_def by blast
      moreover have "\<And>v. set_cell m J I v ! r ! c = m ! r ! c"
        using set_cell_nth [OF dims] False by auto
      ultimately show ?thesis by simp
    qed
  qed
qed

lemma mat_inv_row:
  assumes "mat_inv a b m J 1" "1 \<le> J" "J \<le> length b" "k \<le> length a"
  shows "mat_inv a b (fold (cell_step a b J) [1..<Suc k] m) J (Suc k)"
  using assms(4)
proof (induction k)
  case 0
  then show ?case using assms(1) by simp
next
  case (Suc k)
  then have ih: "mat_inv a b (fold (cell_step a b J) [1..<Suc k] m) J (Suc k)"
    by simp
  have "mat_inv a b (cell_step a b J (Suc k) (fold (cell_step a b J) [1..<Suc k] m)) J (Suc (Suc k))"
    using mat_inv_cell [OF ih assms(2) assms(3)] Suc.prems by simp
  then show ?case by simp
qed

lemma mat_inv_next_row:
  assumes inv: "mat_inv a b m J (Suc (length a))"
  shows "mat_inv a b m (Suc J) 1"
  unfolding mat_inv_def
proof (intro conjI allI impI)
  show "length m = length b + 1" "\<And>r. r \<le> length b \<Longrightarrow> length (m ! r) = length a + 1"
    using inv by (simp_all add: mat_inv_def)
next
  fix r c
  assume h: "r \<le> length b \<and> c \<le> length a \<and> (r = 0 \<or> c = 0 \<or> r < Suc J \<or> r = Suc J \<and> c < 1)"
  then have "r = 0 \<or> c = 0 \<or> r < J \<or> (r = J \<and> c < Suc (length a))"
    by auto
  then show "m ! r ! c = lev_rec a b c r"
    using inv h unfolding mat_inv_def by blast
qed

lemma mat_inv_rows:
  assumes "mat_inv a b m 1 1" "k \<le> length b"
  shows "mat_inv a b (fold (\<lambda>j. fold (cell_step a b j) [1..<length a + 1]) [1..<Suc k] m) (Suc k) 1"
  using assms(2)
proof (induction k)
  case 0
  then show ?case using assms(1) by simp
next
  case (Suc k)
  let ?m = "fold (\<lambda>j. fold (cell_step a b j) [1..<length a + 1]) [1..<Suc k] m"
  have ih: "mat_inv a b ?m (Suc k) 1" using Suc by simp
  have "mat_inv a b (fold (cell_step a b (Suc k)) [1..<Suc (length a)] ?m) (Suc k) (Suc (length a))"
    using mat_inv_row [OF ih, of "length a"] Suc.prems by simp
  then have "mat_inv a b (fold (cell_step a b (Suc k)) [1..<Suc (length a)] ?m) (Suc (Suc k)) 1"
    by (rule mat_inv_next_row)
  then show ?case by simp
qed

lemma init_first_row:
  assumes "length m = Suc R" "\<forall>r \<le> R. length (m ! r) = Suc C" "k \<le> Suc C"
  shows "\<forall>c < k. fold (\<lambda>i m. set_cell m 0 i i) [0..<k] m ! 0 ! c = c"
  using assms(3)
proof (induction k)
  case 0
  then show ?case by simp
next
  case (Suc k)
  let ?m = "fold (\<lambda>i m. set_cell m 0 i i) [0..<k] m"
  have ih: "\<forall>c < k. ?m ! 0 ! c = c" using Suc by simp
  have len: "length ?m = length m" "length (?m ! 0) = length (m ! 0)"
    by (induction k) simp_all
  have "0 < length ?m" "k < length (?m ! 0)"
    using len assms(1,2) Suc.prems by simp_all
  then have "\<forall>c < Suc k. set_cell ?m 0 k k ! 0 ! c = c"
    using ih by (simp add: set_cell_nth)
  then show ?case by simp
qed


lemma fold_set_cell_dims:
  "length (fold (\<lambda>x m. set_cell m (f x) (g x) (h x)) xs m) = length m \<and>
   length (fold (\<lambda>x m. set_cell m (f x) (g x) (h x)) xs m ! r) = length (m ! r)"
  by (induction xs arbitrary: m) simp_all

lemma init_first_col:
  assumes "length m = Suc R" "\<forall>r \<le> R. length (m ! r) = Suc C" "k \<le> Suc R"
    and row0: "\<forall>c \<le> C. m ! 0 ! c = c"
  shows "(\<forall>c \<le> C. fold (\<lambda>j m. set_cell m j 0 j) [0..<k] m ! 0 ! c = c) \<and>
         (\<forall>r < k. fold (\<lambda>j m. set_cell m j 0 j) [0..<k] m ! r ! 0 = r)"
  using assms(3)
proof (induction k)
  case 0
  then show ?case using row0 by simp
next
  case (Suc k)
  let ?m = "fold (\<lambda>j m. set_cell m j 0 j) [0..<k] m"
  have ih: "\<forall>c \<le> C. ?m ! 0 ! c = c" "\<forall>r < k. ?m ! r ! 0 = r"
    using Suc by simp_all
  have len: "length ?m = length m" "length (?m ! k) = length (m ! k)"
    using fold_set_cell_dims [of "\<lambda>j. j" "\<lambda>j. 0" "\<lambda>j. j"] by simp_all
  have dims: "k < length ?m" "0 < length (?m ! k)"
    using len assms(1,2) Suc.prems by simp_all
  have "\<forall>c \<le> C. set_cell ?m k 0 k ! 0 ! c = c"
    using ih(1) by (auto simp: set_cell_nth [OF dims])
  moreover have "\<forall>r < Suc k. set_cell ?m k 0 k ! r ! 0 = r"
    using ih(2) by (auto simp: set_cell_nth [OF dims] less_Suc_eq)
  ultimately show ?case by simp
qed

lemma mat_inv_init:
  "mat_inv a b
     (fold (\<lambda>j m. set_cell m j 0 j) [0..<length b + 1]
        (fold (\<lambda>i m. set_cell m 0 i i) [0..<length a + 1]
           (replicate (length b + 1) (replicate (length a + 1) 0))))
     1 1"
proof -
  define m0 where "m0 = replicate (length b + 1) (replicate (length a + 1) (0::nat))"
  define m1 where "m1 = fold (\<lambda>i m. set_cell m 0 i i) [0..<length a + 1] m0"
  define m2 where "m2 = fold (\<lambda>j m. set_cell m j 0 j) [0..<length b + 1] m1"
  have d0: "length m0 = Suc (length b)" "\<forall>r \<le> length b. length (m0 ! r) = Suc (length a)"
    unfolding m0_def by (simp_all del: replicate_Suc)
  have d1: "length m1 = Suc (length b)" "\<forall>r \<le> length b. length (m1 ! r) = Suc (length a)"
    unfolding m1_def
    using fold_set_cell_dims [of "\<lambda>i. 0" "\<lambda>i. i" "\<lambda>i. i" "[0..<length a + 1]" m0] d0
    by simp_all
  have d2: "length m2 = Suc (length b)" "\<forall>r \<le> length b. length (m2 ! r) = Suc (length a)"
    unfolding m2_def
    using fold_set_cell_dims [of "\<lambda>j. j" "\<lambda>j. 0" "\<lambda>j. j" "[0..<length b + 1]" m1] d1
    by simp_all
  have "\<forall>c < Suc (length a). fold (\<lambda>i m. set_cell m 0 i i) [0..<Suc (length a)] m0 ! 0 ! c = c"
    by (rule init_first_row [OF d0]) simp
  then have r1: "\<forall>c \<le> length a. m1 ! 0 ! c = c"
    unfolding m1_def Suc_eq_plus1 by (simp add: less_Suc_eq_le del: upt_Suc)
  have "(\<forall>c \<le> length a. fold (\<lambda>j m. set_cell m j 0 j) [0..<Suc (length b)] m1 ! 0 ! c = c) \<and>
        (\<forall>r < Suc (length b). fold (\<lambda>j m. set_cell m j 0 j) [0..<Suc (length b)] m1 ! r ! 0 = r)"
    by (rule init_first_col [OF d1 _ r1]) simp
  then have r2: "\<forall>c \<le> length a. m2 ! 0 ! c = c" "\<forall>r \<le> length b. m2 ! r ! 0 = r"
    unfolding m2_def Suc_eq_plus1 by (simp_all add: less_Suc_eq_le del: upt_Suc)
  have "mat_inv a b m2 1 1"
    unfolding mat_inv_def using d2 r2 by auto
  then show ?thesis
    unfolding m2_def m1_def m0_def .
qed

lemma levenshtein_is_classic_dp:
  "calculateLevenshteinDistance a b = lev_rec a b (length a) (length b)"
proof -
  define m2 where "m2 = fold (\<lambda>j m. set_cell m j 0 j) [0..<length b + 1]
        (fold (\<lambda>i m. set_cell m 0 i i) [0..<length a + 1]
           (replicate (length b + 1) (replicate (length a + 1) 0)))"
  define m3 where "m3 = fold (\<lambda>j. fold (cell_step a b j) [1..<length a + 1]) [1..<Suc (length b)] m2"
  have "mat_inv a b m2 1 1"
    unfolding m2_def by (rule mat_inv_init)
  then have "mat_inv a b m3 (Suc (length b)) 1"
    unfolding m3_def by (rule mat_inv_rows) simp
  then have "m3 ! length b ! length a = lev_rec a b (length a) (length b)"
    unfolding mat_inv_def by simp
  then show ?thesis
    unfolding calculateLevenshteinDistance_def Let_def m3_def m2_def Suc_eq_plus1 .
qed


subsection \<open>The recurrence is the least cost of an alignment\<close>

lemma lev_rec_append:
  "i \<le> length a \<Longrightarrow> j \<le> length b \<Longrightarrow> lev_rec (a @ u) (b @ v) i j = lev_rec a b i j"
  by (induction a b i j rule: lev_rec.induct) (simp_all add: nth_append)

lemma edit_cost_inserts: "j \<le> length b \<Longrightarrow> edit_cost [] (take j b) j"
proof (induction j)
  case 0
  then show ?case by (simp add: edit_cost.cost_nil)
next
  case (Suc j)
  then have "edit_cost [] (take j b @ [b ! j]) (Suc j)"
    by (intro edit_cost.cost_insert) simp
  then show ?case using Suc.prems by (simp add: take_Suc_conv_app_nth)
qed

lemma edit_cost_deletes: "i \<le> length a \<Longrightarrow> edit_cost (take i a) [] i"
proof (induction i)
  case 0
  then show ?case by (simp add: edit_cost.cost_nil)
next
  case (Suc i)
  then have "edit_cost (take i a @ [a ! i]) [] (Suc i)"
    by (intro edit_cost.cost_delete) simp
  then show ?case using Suc.prems by (simp add: take_Suc_conv_app_nth)
qed

lemma lev_rec_is_a_cost:
  "i \<le> length a \<Longrightarrow> j \<le> length b \<Longrightarrow> edit_cost (take i a) (take j b) (lev_rec a b i j)"
proof (induction a b i j rule: lev_rec.induct)
  case (1 a b j)
  then show ?case by (simp add: edit_cost_inserts)
next
  case (2 a b i)
  then show ?case using edit_cost_deletes [of "Suc i" a] by simp
next
  case (3 a b i j)
  have ta: "take (Suc i) a = take i a @ [a ! i]" and tb: "take (Suc j) b = take j b @ [b ! j]"
    using "3.prems" by (simp_all add: take_Suc_conv_app_nth)
  have d: "edit_cost (take (Suc i) a) (take (Suc j) b) (Suc (lev_rec a b i (Suc j)))"
    unfolding ta using "3.IH"(1) "3.prems" by (intro edit_cost.cost_delete) (simp add: ta)
  have n: "edit_cost (take (Suc i) a) (take (Suc j) b) (Suc (lev_rec a b (Suc i) j))"
    unfolding tb using "3.IH"(2) "3.prems" by (intro edit_cost.cost_insert) (simp add: tb)
  have s: "edit_cost (take (Suc i) a) (take (Suc j) b)
             (lev_rec a b i j + (if a ! i = b ! j then 0 else 1))"
    unfolding ta tb using "3.IH"(3) "3.prems" by (intro edit_cost.cost_substitute) simp
  show ?case
    using d n s by (simp add: min_def)
qed

lemma lev_rec_is_least:
  "edit_cost a b n \<Longrightarrow> lev_rec a b (length a) (length b) \<le> n"
proof (induction rule: edit_cost.induct)
  case cost_nil
  then show ?case by simp
next
  case (cost_delete a b n x)
  show ?case
  proof (cases "length b")
    case 0
    then show ?thesis using cost_delete.IH by simp
  next
    case (Suc j)
    have "lev_rec (a @ [x]) b (Suc (length a)) (Suc j) \<le> lev_rec (a @ [x]) b (length a) (Suc j) + 1"
      by simp
    also have "lev_rec (a @ [x]) b (length a) (Suc j) = lev_rec a b (length a) (length b)"
      using lev_rec_append [of "length a" a "length b" b "[x]" "[]"] Suc by simp
    finally show ?thesis using cost_delete.IH Suc by simp
  qed
next
  case (cost_insert a b n y)
  show ?case
  proof (cases "length a")
    case 0
    then show ?thesis using cost_insert.IH by simp
  next
    case (Suc i)
    have "lev_rec a (b @ [y]) (Suc i) (Suc (length b)) \<le> lev_rec a (b @ [y]) (Suc i) (length b) + 1"
      by simp
    also have "lev_rec a (b @ [y]) (Suc i) (length b) = lev_rec a b (length a) (length b)"
      using lev_rec_append [of "length a" a "length b" b "[]" "[y]"] Suc by simp
    finally show ?thesis using cost_insert.IH Suc by simp
  qed
next
  case (cost_substitute a b n x y)
  have "lev_rec (a @ [x]) (b @ [y]) (Suc (length a)) (Suc (length b))
          \<le> lev_rec (a @ [x]) (b @ [y]) (length a) (length b) + (if x = y then 0 else 1)"
    by simp
  also have "lev_rec (a @ [x]) (b @ [y]) (length a) (length b) = lev_rec a b (length a) (length b)"
    using lev_rec_append [of "length a" a "length b" b "[x]" "[y]"] by simp
  finally show ?case using cost_substitute.IH by simp
qed

lemma spec_editDistance_least_cost:
  "edit_cost a b (spec_editDistance a b) \<and> (\<forall>n. edit_cost a b n \<longrightarrow> spec_editDistance a b \<le> n)"
  using lev_rec_is_a_cost [of "length a" a "length b" b] lev_rec_is_least [of a b]
  by (simp add: spec_editDistance_def)

section \<open>The score refines the formula of the specification\<close>












lemma semantic_decomposition:
  "calculateSemanticSimilarity q1 q2 =
     spec_authorScore q1 q2 * (5 / 10)
     + calculateTagSimilarity (tags_or_empty q1) (tags_or_empty q2) * (3 / 10)
     + calculateLengthSimilarity (q_text q1) (q_text q2) * (2 / 10)"
  by (simp add: calculateSemanticSimilarity_def spec_authorScore_def Let_def)






section \<open>The score lies between 0 and 1\<close>




lemma author_similarity_bounds:
  "0 \<le> calculateAuthorSimilarity x y \<and> calculateAuthorSimilarity x y \<le> 1"
proof -
  have "(real M - real d) / real M \<le> 1" for M d :: nat
    by (cases "M = 0") (simp_all add: divide_le_eq_1)
  then show ?thesis
    by (simp add: calculateAuthorSimilarity_def Let_def)
qed





section \<open>Ranking\<close>

lemma collect_similarities_with_eq:
  "collect_similarities_with sc m t cs acc = acc @ kept_candidates_with sc m t cs"
  by (induction cs arbitrary: acc) (simp_all add: kept_candidates_with_def Let_def)

lemma slice0_take: "\<exists>k. slice0 xs n = take k xs"
  unfolding slice0_def by auto

lemma findSimilarQuotes_with_take:
  "\<exists>k. findSimilarQuotes_with sc m t pool limit
         = take k (sort_key (\<lambda>s. - s_score s) (kept_candidates_with sc m t pool))"
  unfolding findSimilarQuotes_with_def Let_def collect_similarities_with_eq
  using slice0_take by auto

lemma findSimilarQuotes_with_nonneg:
  "0 \<le> limit \<Longrightarrow>
   findSimilarQuotes_with sc m t pool limit
     = take (nat limit) (sort_key (\<lambda>s. - s_score s) (kept_candidates_with sc m t pool))"
  unfolding findSimilarQuotes_with_def Let_def collect_similarities_with_eq
  by (simp add: slice0_def)

lemma findSimilarQuotes_with_subset:
  "set (findSimilarQuotes_with sc m t pool limit) \<subseteq> set (kept_candidates_with sc m t pool)"
proof -
  obtain k where "findSimilarQuotes_with sc m t pool limit
      = take k (sort_key (\<lambda>s. - s_score s) (kept_candidates_with sc m t pool))"
    using findSimilarQuotes_with_take by blast
  then show ?thesis
    using set_take_subset [of k "sort_key (\<lambda>s. - s_score s) (kept_candidates_with sc m t pool)"]
    by simp
qed

lemma kept_candidates_with_member:
  "e \<in> set (kept_candidates_with sc m t pool) \<Longrightarrow>
   q_id (s_quote e) \<noteq> q_id t \<and> s_quote e \<in> set pool \<and>
   s_score e = sc t (s_quote e) \<and> m \<le> s_score e"
  by (auto simp: kept_candidates_with_def)

lemma findSimilarQuotes_with_sorted:
  "sorted_wrt (\<lambda>a b. s_score a \<ge> s_score b) (findSimilarQuotes_with sc m t pool limit)"
proof -
  let ?xs = "sort_key (\<lambda>s. - s_score s) (kept_candidates_with sc m t pool)"
  obtain k where k: "findSimilarQuotes_with sc m t pool limit = take k ?xs"
    using findSimilarQuotes_with_take by blast
  have "sorted (map (\<lambda>s. - s_score s) ?xs)"
    by (rule sorted_sort_key)
  then have "sorted_wrt (\<lambda>a b. s_score a \<ge> s_score b) ?xs"
    by (simp add: sorted_wrt_map)
  then show ?thesis
    unfolding k by (rule sorted_wrt_take)
qed

lemma findSimilarQuotes_with_stable:
  "prefix (filter (\<lambda>e. s_score e = v) (findSimilarQuotes_with sc m t pool limit))
          (filter (\<lambda>e. s_score e = v) (kept_candidates_with sc m t pool))"
proof -
  let ?ks = "kept_candidates_with sc m t pool"
  let ?xs = "sort_key (\<lambda>s. - s_score s) ?ks"
  obtain k where k: "findSimilarQuotes_with sc m t pool limit = take k ?xs"
    using findSimilarQuotes_with_take by blast
  have "filter (\<lambda>e. - s_score e = - v) ?xs = filter (\<lambda>e. - s_score e = - v) ?ks"
    by (rule sort_key_stable)
  then have st: "filter (\<lambda>e. s_score e = v) ?xs = filter (\<lambda>e. s_score e = v) ?ks"
    by simp
  have "filter (\<lambda>e. s_score e = v) ?xs
          = filter (\<lambda>e. s_score e = v) (take k ?xs) @ filter (\<lambda>e. s_score e = v) (drop k ?xs)"
    by (metis append_take_drop_id filter_append)
  then have "prefix (filter (\<lambda>e. s_score e = v) (take k ?xs)) (filter (\<lambda>e. s_score e = v) ?xs)"
    by (metis prefixI)
  then show ?thesis
    unfolding k st .
qed

lemma findSimilarQuotes_nonneg:
  "0 \<le> limit \<Longrightarrow>
   findSimilarQuotes t pool limit = take (nat limit) (sort_key (\<lambda>s. - s_score s) (kept_candidates t pool))"
  unfolding findSimilarQuotes_def kept_candidates_def by (rule findSimilarQuotes_with_nonneg)






text \<open>
  The hypothesis on the tags cannot be dropped. \<^verbatim>\<open>calculateTagSimilarity\<close> counts the
  intersection on the first tag list as it is and the union on a set, so a tag list that
  repeats a tag, which the \<^verbatim>\<open>sanitizeTags\<close> of the repository and \<^verbatim>\<open>QuoteSchema\<close> would let
  through, gives a tag sub-score of 2 and a score above 1.
\<close>

lemma repeated_tag_exceeds_one:
  "\<not> well_formed quote_d1 \<and>
   calculateTagSimilarity (tags_or_empty quote_d1) (tags_or_empty quote_d2) = 2 \<and>
   calculateOverallSimilarity quote_d1 quote_d2 = 23 / 20"
  by code_simp

section \<open>Edit distance and author similarity\<close>

lemma trim_decomposition:
  "\<exists>pre post. s = pre @ trim s @ post \<and> list_all is_space pre \<and> list_all is_space post \<and>
     (trim s = [] \<or> (\<not> is_space (hd (trim s)) \<and> \<not> is_space (last (trim s))))"
proof -
  define d where "d = dropWhile is_space s"
  define pre where "pre = takeWhile is_space s"
  define post where "post = rev (takeWhile is_space (rev d))"
  have t: "trim s = rev (dropWhile is_space (rev d))"
    by (simp add: trim_def d_def)
  have "d = rev (dropWhile is_space (rev d)) @ rev (takeWhile is_space (rev d))"
    by (metis rev_append rev_rev_ident takeWhile_dropWhile_id)
  then have d_eq: "d = trim s @ post"
    unfolding t post_def .
  have "s = pre @ d"
    unfolding pre_def d_def by simp
  then have s_eq: "s = pre @ trim s @ post"
    using d_eq by simp
  have p1: "list_all is_space pre"
    by (simp add: pre_def list_all_iff) (meson set_takeWhileD)
  have p2: "list_all is_space post"
    by (simp add: post_def list_all_iff) (meson set_takeWhileD)
  have ends: "\<not> is_space (hd (trim s)) \<and> \<not> is_space (last (trim s))" if ne: "trim s \<noteq> []"
  proof -
    have dne: "d \<noteq> []" using d_eq ne by auto
    have "hd (trim s) = hd d" using d_eq ne by (metis hd_append2)
    moreover have "\<not> is_space (hd d)" unfolding d_def using dne d_def by (metis hd_dropWhile)
    moreover have "dropWhile is_space (rev d) \<noteq> []" using ne t by simp
    then have "\<not> is_space (hd (dropWhile is_space (rev d)))" by (rule hd_dropWhile)
    moreover have "last (trim s) = hd (dropWhile is_space (rev d))"
      using ne t by (simp add: last_rev)
    ultimately show ?thesis by simp
  qed
  show ?thesis using s_eq p1 p2 ends by blast
qed

lemma trim_unique:
  assumes "s = pre @ n @ post" "list_all is_space pre" "list_all is_space post"
    and "n = [] \<or> (\<not> is_space (hd n) \<and> \<not> is_space (last n))"
  shows "trim s = n"
proof (cases "n = []")
  case True
  then have "\<forall>c \<in> set s. is_space c"
    using assms(1,2,3) by (auto simp: list_all_iff)
  then have e: "dropWhile is_space s = []" by simp
  show ?thesis unfolding trim_def e using True by simp
next
  case False
  then obtain x xs where n: "n = x # xs" by (cases n) auto
  have hx: "\<not> is_space x" and lx: "\<not> is_space (last n)" using assms(4) False n by auto
  have "dropWhile is_space s = n @ post"
    using assms(1,2) hx n by (simp add: list_all_iff)
  then have "rev (dropWhile is_space s) = rev post @ rev n" by simp
  moreover have "dropWhile is_space (rev post @ rev n) = dropWhile is_space (rev n)"
    using assms(3) by (intro dropWhile_append2) (simp add: list_all_iff)
  moreover have "dropWhile is_space (rev n) = rev n"
    using lx False by (cases "rev n") (auto simp: last_rev hd_rev dest: arg_cong [where f = hd])
  ultimately show ?thesis by (simp add: trim_def)
qed

lemma normalised_name_iff: "normalised_name a n \<longleftrightarrow> n = trim (toLowerCase a)"
proof
  assume "normalised_name a n"
  then show "n = trim (toLowerCase a)"
    unfolding normalised_name_def using trim_unique by metis
next
  assume "n = trim (toLowerCase a)"
  then show "normalised_name a n"
    unfolding normalised_name_def using trim_decomposition [of "toLowerCase a"] by simp
qed

lemma author_similarity_on_normalised:
  assumes "normalised_name x n1" "normalised_name y n2"
  shows "calculateAuthorSimilarity x y = amended_authorSimilarity n1 n2"
  using assms
  by (simp add: normalised_name_iff calculateAuthorSimilarity_def amended_authorSimilarity_def
      Let_def str_includes_def spec_editDistance_def levenshtein_is_classic_dp)

text \<open>
  Claim C9, as stated: the author similarity is 1 on an exact case-insensitive match, else
  0.8 when one normalised name occurs in the other. It fails for the names \<open>A\<close> and \<open>A\<close>
  followed by a space: they do not match up to case, one normalised name occurs in the
  other, so the words of the claim give 0.8, and \<^verbatim>\<open>calculateAuthorSimilarity\<close>, which trims
  before it compares, returns 1.
\<close>

theorem author_similarity_literal_counterexample:
  "toLowerCase ''A'' \<noteq> toLowerCase ''A '' \<and>
   sublist (trim (toLowerCase ''A'')) (trim (toLowerCase ''A '')) \<and>
   spec_authorSimilarity ''A'' ''A '' = 8 / 10 \<and>
   calculateAuthorSimilarity ''A'' ''A '' = 1"
  by code_simp

text \<open>
  Claim C9, amended. \<^verbatim>\<open>calculateLevenshteinDistance\<close> returns the value of the classic
  dynamic-programming recurrence of the Levenshtein distance with unit costs, a natural
  number, which is the least number of single-character deletions, insertions and
  substitutions that turn the first string into the second.
  \<^verbatim>\<open>calculateAuthorSimilarity\<close> returns 1 when the two normalised names (lower-cased, without
  leading and trailing white space) are equal, which covers every exact case-insensitive
  match, else 0.8 when one normalised name occurs in the other, else the maximum of 0 and
  (maxLen - editDistance) / maxLen on the normalised names; its value always lies between
  0 and 1. It agrees with the rule as the claim words it except for names that differ up
  to case and are equal after normalisation.
\<close>

theorem edit_distance_and_author_similarity:
  "calculateLevenshteinDistance a b = spec_editDistance a b \<and>
   0 \<le> calculateLevenshteinDistance a b \<and>
   edit_cost a b (calculateLevenshteinDistance a b) \<and>
   (\<forall>n. edit_cost a b n \<longrightarrow> calculateLevenshteinDistance a b \<le> n) \<and>
   (normalised_name x n1 \<and> normalised_name y n2 \<longrightarrow>
      calculateAuthorSimilarity x y = amended_authorSimilarity n1 n2) \<and>
   (normalised_name x n1 \<and> normalised_name y n2 \<and>
    (n1 \<noteq> n2 \<or> toLowerCase x = toLowerCase y) \<longrightarrow>
      calculateAuthorSimilarity x y = spec_authorSimilarity x y) \<and>
   0 \<le> calculateAuthorSimilarity x y \<and> calculateAuthorSimilarity x y \<le> 1 \<and>
   (toLowerCase x = toLowerCase y \<longrightarrow> calculateAuthorSimilarity x y = 1)"
proof -
  have d: "calculateLevenshteinDistance a b = spec_editDistance a b"
    by (simp add: levenshtein_is_classic_dp spec_editDistance_def)
  have m: "toLowerCase x = toLowerCase y \<longrightarrow> calculateAuthorSimilarity x y = 1"
    by (simp add: calculateAuthorSimilarity_def)
  have n: "normalised_name x n1 \<and> normalised_name y n2 \<longrightarrow>
      calculateAuthorSimilarity x y = amended_authorSimilarity n1 n2"
    using author_similarity_on_normalised by blast
  have l: "normalised_name x n1 \<and> normalised_name y n2 \<and>
    (n1 \<noteq> n2 \<or> toLowerCase x = toLowerCase y) \<longrightarrow>
      calculateAuthorSimilarity x y = spec_authorSimilarity x y"
    by (auto simp: normalised_name_iff calculateAuthorSimilarity_def spec_authorSimilarity_def
        Let_def str_includes_def spec_editDistance_def levenshtein_is_classic_dp)
  show ?thesis
    unfolding d
    using author_similarity_bounds [of x y] spec_editDistance_least_cost [of a b] m n l
    by simp
qed

theorem edit_distance_and_author_similarity_witness:
  "spec_editDistance ''kitten'' ''sitting'' = 3 \<and>
   calculateLevenshteinDistance ''kitten'' ''sitting'' = 3 \<and>
   normalised_name ''  Mark Twain '' ''mark twain'' \<and> normalised_name ''TWAIN'' ''twain'' \<and>
   calculateAuthorSimilarity ''  Mark Twain '' ''TWAIN'' = 8 / 10 \<and>
   spec_authorSimilarity ''  Mark Twain '' ''TWAIN'' = 8 / 10 \<and>
   normalised_name ''Kitten'' ''kitten'' \<and> normalised_name ''sitting '' ''sitting'' \<and>
   calculateAuthorSimilarity ''Kitten'' ''sitting '' = 4 / 7 \<and>
   toLowerCase ''Twain'' = toLowerCase ''TWAIN'' \<and>
   calculateAuthorSimilarity ''Twain'' ''TWAIN'' = 1"
proof -
  have d: "spec_editDistance ''kitten'' ''sitting'' = 3" by code_simp
  have t: "trim (toLowerCase ''  Mark Twain '') = ''mark twain''"
    "trim (toLowerCase ''TWAIN'') = ''twain''"
    "trim (toLowerCase ''Kitten'') = ''kitten''"
    "trim (toLowerCase ''sitting '') = ''sitting''"
    by code_simp+
  have n: "normalised_name ''  Mark Twain '' ''mark twain''" "normalised_name ''TWAIN'' ''twain''"
    "normalised_name ''Kitten'' ''kitten''" "normalised_name ''sitting '' ''sitting''"
    by (simp_all only: normalised_name_iff t)
  have v: "amended_authorSimilarity ''mark twain'' ''twain'' = 8 / 10"
    "amended_authorSimilarity ''kitten'' ''sitting'' = 4 / 7"
    "''mark twain'' \<noteq> ''twain''"
    by code_simp+
  have l: "toLowerCase ''Twain'' = toLowerCase ''TWAIN''" by code_simp
  from edit_distance_and_author_similarity [of "''kitten''" "''sitting''" "''  Mark Twain ''"
      "''mark twain''" "''TWAIN''" "''twain''"]
    edit_distance_and_author_similarity [of "''kitten''" "''sitting''" "''Kitten''"
      "''kitten''" "''sitting ''" "''sitting''"]
    edit_distance_and_author_similarity [of "''kitten''" "''sitting''" "''Twain''"
      "''twain''" "''TWAIN''" "''twain''"]
    d n v l
  show ?thesis by simp
qed

lemma author_whitespace_variant:
  assumes "toLowerCase a1 \<noteq> toLowerCase a2" "trim (toLowerCase a1) = trim (toLowerCase a2)"
  shows "spec_authorScore (q1\<lparr>q_author := a1\<rparr>) (q2\<lparr>q_author := a2\<rparr>) = 1"
  using assms by (simp add: spec_authorScore_def calculateAuthorSimilarity_def)

text \<open>
  Claim C10. An exact author match does not maximise the author sub-score. When the two
  authors are equal up to case the author contributes 0.9 times 0.5 to the semantic
  similarity. When they differ up to case but are equal after trimming, the exact-match
  branch fails, the author similarity is 1 and the author contributes 1 times 0.5; the
  authors \<open>A\<close> and \<open>A\<close> followed by a space are such a pair, and they score 0.05 more than
  two equal authors.
\<close>

theorem exact_author_match_not_maximal:
  "(toLowerCase a1 = toLowerCase a2 \<longrightarrow>
      calculateSemanticSimilarity (q1\<lparr>q_author := a1\<rparr>) (q2\<lparr>q_author := a2\<rparr>)
        = (9 / 10) * (5 / 10)
          + calculateTagSimilarity (tags_or_empty q1) (tags_or_empty q2) * (3 / 10)
          + calculateLengthSimilarity (q_text q1) (q_text q2) * (2 / 10)) \<and>
   (toLowerCase a1 \<noteq> toLowerCase a2 \<and> trim (toLowerCase a1) = trim (toLowerCase a2) \<longrightarrow>
      calculateAuthorSimilarity a1 a2 = 1 \<and>
      calculateSemanticSimilarity (q1\<lparr>q_author := a1\<rparr>) (q2\<lparr>q_author := a2\<rparr>)
        = 1 * (5 / 10)
          + calculateTagSimilarity (tags_or_empty q1) (tags_or_empty q2) * (3 / 10)
          + calculateLengthSimilarity (q_text q1) (q_text q2) * (2 / 10)) \<and>
   calculateSemanticSimilarity (q1\<lparr>q_author := ''A''\<rparr>) (q2\<lparr>q_author := ''A ''\<rparr>)
     = calculateSemanticSimilarity (q1\<lparr>q_author := ''A''\<rparr>) (q2\<lparr>q_author := ''A''\<rparr>) + 1 / 20"
proof -
  have ne: "toLowerCase ''A'' \<noteq> toLowerCase ''A ''" by (simp add: toLowerCase_def)
  have tr: "trim (toLowerCase ''A'') = trim (toLowerCase ''A '')" by code_simp
  have ex: "spec_authorScore (q1\<lparr>q_author := ''A''\<rparr>) (q2\<lparr>q_author := ''A''\<rparr>) = 9 / 10"
    by (simp add: spec_authorScore_def)
  show ?thesis
    using author_whitespace_variant [OF ne tr, of q1 q2] ex
    by (auto simp: semantic_decomposition tags_or_empty_def author_whitespace_variant
        spec_authorScore_def calculateAuthorSimilarity_def)
qed

theorem exact_author_match_not_maximal_witness:
  "toLowerCase ''A'' = toLowerCase ''A'' \<and>
   calculateSemanticSimilarity quote_h1 quote_h2
     = (9 / 10) * (5 / 10) + 1 * (3 / 10) + (22 / 35) * (2 / 10) \<and>
   toLowerCase ''A'' \<noteq> toLowerCase ''A '' \<and>
   trim (toLowerCase ''A'') = trim (toLowerCase ''A '') \<and>
   calculateAuthorSimilarity ''A'' ''A '' = 1 \<and>
   calculateSemanticSimilarity quote_h1 (quote_h2\<lparr>q_author := ''A ''\<rparr>)
     = 1 * (5 / 10) + 1 * (3 / 10) + (22 / 35) * (2 / 10)"
proof -
  have ne: "toLowerCase ''A'' \<noteq> toLowerCase ''A ''" by (simp add: toLowerCase_def)
  have tr: "trim (toLowerCase ''A'') = trim (toLowerCase ''A '')" by code_simp
  have t: "calculateTagSimilarity (tags_or_empty quote_h1) (tags_or_empty quote_h2) = 1"
    by code_simp
  have l: "calculateLengthSimilarity (q_text quote_h1) (q_text quote_h2) = 22 / 35"
    by code_simp
  have same: "quote_h1\<lparr>q_author := ''A''\<rparr> = quote_h1" "quote_h2\<lparr>q_author := ''A''\<rparr> = quote_h2"
    by (simp_all add: quote_h1_def quote_h2_def)
  from exact_author_match_not_maximal [of "''A''" "''A''" quote_h1 quote_h2]
    exact_author_match_not_maximal [of "''A''" "''A ''" quote_h1 quote_h2] ne tr t l same
  show ?thesis by simp
qed

section \<open>Properties of the ranking\<close>

text \<open>
  Claim C2. For every target quote and pool, whatever numbers the scorer returns and
  whatever the minimum is (so for the doubles of the code and its minimum 0.08 as for the
  exact scores), and for every limit: no entry of the ranking has the id of the target;
  every entry is a candidate of the pool with its score; no entry scores below the
  minimum, so every candidate below it is dropped; the ranking is sorted by descending
  score; and entries of equal score keep the order of the pool. For every limit that is
  not negative, as every limit is that passed the validation of the caller to the range
  1 to 50, the ranking is the first \<open>limit\<close> entries of the stably sorted candidates and so
  holds at most \<open>limit\<close> entries.
\<close>

theorem ranking_properties:
  "(\<forall>e \<in> set (findSimilarQuotes_with sc m t pool limit).
      q_id (s_quote e) \<noteq> q_id t \<and> s_quote e \<in> set pool \<and>
      s_score e = sc t (s_quote e) \<and> m \<le> s_score e) \<and>
   sorted_wrt (\<lambda>a b. s_score a \<ge> s_score b) (findSimilarQuotes_with sc m t pool limit) \<and>
   (\<forall>v. prefix (filter (\<lambda>e. s_score e = v) (findSimilarQuotes_with sc m t pool limit))
               (filter (\<lambda>e. s_score e = v) (kept_candidates_with sc m t pool))) \<and>
   (0 \<le> limit \<longrightarrow>
      findSimilarQuotes_with sc m t pool limit
        = take (nat limit) (sort_key (\<lambda>s. - s_score s) (kept_candidates_with sc m t pool)) \<and>
      int (length (findSimilarQuotes_with sc m t pool limit)) \<le> limit)"
proof (intro conjI ballI allI impI)
  fix e assume "e \<in> set (findSimilarQuotes_with sc m t pool limit)"
  then have e: "e \<in> set (kept_candidates_with sc m t pool)"
    using findSimilarQuotes_with_subset by blast
  show "q_id (s_quote e) \<noteq> q_id t" "s_quote e \<in> set pool"
    "s_score e = sc t (s_quote e)" "m \<le> s_score e"
    using kept_candidates_with_member [OF e] by simp_all
next
  show "sorted_wrt (\<lambda>a b. s_score a \<ge> s_score b) (findSimilarQuotes_with sc m t pool limit)"
    by (rule findSimilarQuotes_with_sorted)
next
  fix v
  show "prefix (filter (\<lambda>e. s_score e = v) (findSimilarQuotes_with sc m t pool limit))
               (filter (\<lambda>e. s_score e = v) (kept_candidates_with sc m t pool))"
    by (rule findSimilarQuotes_with_stable)
next
  assume l: "0 \<le> limit"
  show eq: "findSimilarQuotes_with sc m t pool limit
        = take (nat limit) (sort_key (\<lambda>s. - s_score s) (kept_candidates_with sc m t pool))"
    using l by (rule findSimilarQuotes_with_nonneg)
  show "int (length (findSimilarQuotes_with sc m t pool limit)) \<le> limit"
    unfolding eq using l by simp
qed

theorem ranking_properties_witness:
  "(0::int) \<le> 1 \<and>
   kept_candidates_with calculateOverallSimilarity MINIMUM_SIMILARITY_SCORE quote_t
     [quote_c, quote_b, quote_t]
     = [\<lparr>s_quote = quote_c, s_score = 107 / 175\<rparr>, \<lparr>s_quote = quote_b, s_score = 22 / 25\<rparr>] \<and>
   findSimilarQuotes_with calculateOverallSimilarity MINIMUM_SIMILARITY_SCORE quote_t
     [quote_c, quote_b, quote_t] 1 = [\<lparr>s_quote = quote_b, s_score = 22 / 25\<rparr>] \<and>
   int (length (findSimilarQuotes_with calculateOverallSimilarity MINIMUM_SIMILARITY_SCORE quote_t
                  [quote_c, quote_b, quote_t] 1)) \<le> 1"
proof -
  have k: "kept_candidates_with calculateOverallSimilarity MINIMUM_SIMILARITY_SCORE quote_t
     [quote_c, quote_b, quote_t]
     = [\<lparr>s_quote = quote_c, s_score = 107 / 175\<rparr>, \<lparr>s_quote = quote_b, s_score = 22 / 25\<rparr>]"
    by code_simp
  have s: "take (nat 1) (sort_key (\<lambda>s. - s_score s)
              [\<lparr>s_quote = quote_c, s_score = 107 / 175\<rparr>, \<lparr>s_quote = quote_b, s_score = 22 / 25\<rparr>])
            = [\<lparr>s_quote = quote_b, s_score = 22 / 25\<rparr>]"
    by code_simp
  from ranking_properties [of calculateOverallSimilarity MINIMUM_SIMILARITY_SCORE quote_t
      "[quote_c, quote_b, quote_t]" 1] k s
  show ?thesis by simp
qed

section \<open>Weighted random selection\<close>


lemma cumulative_weight_0 [simp]: "cumulative_weight qs 0 = 0"
  by (simp add: cumulative_weight_def)
















section \<open>The read path of the similarity cache\<close>

lemma cache_set_frame:
  "db_similarity (cache_setSimilarQuotes f w k xs) = db_similarity w"
  "db_quotes (cache_setSimilarQuotes f w k xs) = db_quotes w"
  by (simp_all add: cache_setSimilarQuotes_def Let_def)

lemma cache_get_rows:
  "cache_getSimilarQuotes f (w\<lparr>db_similarity := rows\<rparr>) k = cache_getSimilarQuotes f w k"
  by (simp add: cache_getSimilarQuotes_def Let_def)

lemma cache_set_rows:
  "cache_setSimilarQuotes f (w\<lparr>db_similarity := rows\<rparr>) k xs
     = (cache_setSimilarQuotes f w k xs)\<lparr>db_similarity := rows\<rparr>"
  by (simp add: cache_setSimilarQuotes_def Let_def)

lemma getSimilarQuotes_frame:
  "db_similarity (snd (getSimilarQuotes f w ident limit)) = db_similarity w \<and>
   db_quotes (snd (getSimilarQuotes f w ident limit)) = db_quotes w"
  by (simp add: getSimilarQuotes_def Let_def cache_set_frame
      split: sum.splits option.splits list.splits)

lemma getSimilarQuotes_ignores_rows:
  "getSimilarQuotes f (w\<lparr>db_similarity := rows\<rparr>) ident limit
     = (fst (getSimilarQuotes f w ident limit),
        (snd (getSimilarQuotes f w ident limit))\<lparr>db_similarity := rows\<rparr>)"
  by (simp add: getSimilarQuotes_def Let_def findById_def findAll_def cache_get_rows cache_set_rows
      split: sum.splits option.splits list.splits)

lemma getSimilarQuotes_hit:
  assumes "\<not> blank_id ident" "1 \<le> limit" "limit \<le> 50"
    and "findById f w (trim ident) = Inr (Some target)"
    and "cache_getSimilarQuotes f w (trim ident) = Some xs" "xs \<noteq> []"
  shows "getSimilarQuotes f w ident limit = (Inr (slice0 xs limit), w)"
  using assms by (cases xs) (simp_all add: getSimilarQuotes_def Let_def)

lemma getSimilarQuotes_miss:
  assumes "\<not> blank_id ident" "1 \<le> limit" "limit \<le> 50"
    and "findById f w (trim ident) = Inr (Some target)"
    and "cache_getSimilarQuotes f w (trim ident) = None \<or> cache_getSimilarQuotes f w (trim ident) = Some []"
    and "findAll f w = Inr allQuotes"
  shows "getSimilarQuotes f w ident limit
           = (Inr (findSimilarQuotes target allQuotes limit),
              cache_setSimilarQuotes f w (trim ident) (findSimilarQuotes target allQuotes limit))"
  using assms by (auto simp: getSimilarQuotes_def Let_def)

text \<open>
  Claim C4, as stated: on a miss in Redis the persistent tier is consulted and its entry is
  copied to Redis, and a computed ranking is written to both tiers. It fails in \<open>world0\<close>,
  where Redis is empty and \<^verbatim>\<open>quote_similarities\<close> holds a row for the target: the request
  returns the computed ranking, not the row; Redis receives the computed ranking, not the
  row; and the table is left as it was.
\<close>

theorem persistent_tier_not_consulted_counterexample:
  "cache_getSimilarQuotes no_faults world0 ''t'' = None \<and>
   getCachedSimilarities no_faults world0 ''t'' 10 = Inr [\<lparr>s_quote = quote_c, s_score = 1 / 2\<rparr>] \<and>
   fst (getSimilarQuotes no_faults world0 ''t'' 10)
     = Inr [\<lparr>s_quote = quote_b, s_score = 22 / 25\<rparr>, \<lparr>s_quote = quote_c, s_score = 107 / 175\<rparr>] \<and>
   redis (snd (getSimilarQuotes no_faults world0 ''t'' 10)) ''similar:t''
     = Some (CachedSimilar [\<lparr>s_quote = quote_b, s_score = 22 / 25\<rparr>,
                            \<lparr>s_quote = quote_c, s_score = 107 / 175\<rparr>]) \<and>
   db_similarity (snd (getSimilarQuotes no_faults world0 ''t'' 10)) = [(''t'', ''c'', 1 / 2)] \<and>
   getCachedSimilarities no_faults (snd (getSimilarQuotes no_faults world0 ''t'' 10)) ''t'' 10
     = Inr [\<lparr>s_quote = quote_c, s_score = 1 / 2\<rparr>]"
  by code_simp

text \<open>
  Claim C4, amended. \<^verbatim>\<open>getSimilarQuotes\<close> consults one tier, Redis. It never writes the
  table \<^verbatim>\<open>quote_similarities\<close> and its result does not depend on it. For a valid request
  with a known target, a cached ranking that is not empty is returned, truncated to the
  limit, and nothing is written; otherwise (no entry, an empty entry or a failing read)
  the ranking is computed over the full pool and written to Redis only.
\<close>

theorem single_tier_read_path:
  "db_similarity (snd (getSimilarQuotes f w ident limit)) = db_similarity w \<and>
   getSimilarQuotes f (w\<lparr>db_similarity := rows\<rparr>) ident limit
     = (fst (getSimilarQuotes f w ident limit),
        (snd (getSimilarQuotes f w ident limit))\<lparr>db_similarity := rows\<rparr>) \<and>
   (\<not> blank_id ident \<and> 1 \<le> limit \<and> limit \<le> 50 \<and>
    findById f w (trim ident) = Inr (Some target) \<and>
    cache_getSimilarQuotes f w (trim ident) = Some xs \<and> xs \<noteq> []
      \<longrightarrow> getSimilarQuotes f w ident limit = (Inr (slice0 xs limit), w)) \<and>
   (\<not> blank_id ident \<and> 1 \<le> limit \<and> limit \<le> 50 \<and>
    findById f w (trim ident) = Inr (Some target) \<and>
    (cache_getSimilarQuotes f w (trim ident) = None \<or>
     cache_getSimilarQuotes f w (trim ident) = Some []) \<and>
    findAll f w = Inr allQuotes
      \<longrightarrow> getSimilarQuotes f w ident limit
            = (Inr (findSimilarQuotes target allQuotes limit),
               cache_setSimilarQuotes f w (trim ident) (findSimilarQuotes target allQuotes limit)) \<and>
          db_similarity (cache_setSimilarQuotes f w (trim ident)
                           (findSimilarQuotes target allQuotes limit)) = db_similarity w)"
  using getSimilarQuotes_frame [where f = f and w = w and ident = ident and limit = limit]
    getSimilarQuotes_ignores_rows [where f = f and w = w and ident = ident and limit = limit and rows = rows]
    getSimilarQuotes_hit [where f = f and w = w and ident = ident and limit = limit
      and target = target and xs = xs]
    getSimilarQuotes_miss [where f = f and w = w and ident = ident and limit = limit
      and target = target and allQuotes = allQuotes]
  by (simp add: cache_set_frame)

theorem single_tier_read_path_witness:
  "\<not> blank_id ''t'' \<and> findById no_faults world0 (trim ''t'') = Inr (Some quote_t) \<and>
   cache_getSimilarQuotes no_faults world0 (trim ''t'') = None \<and>
   findAll no_faults world0 = Inr [quote_b, quote_c, quote_t] \<and>
   getSimilarQuotes no_faults world0 ''t'' 10
     = (Inr (findSimilarQuotes quote_t [quote_b, quote_c, quote_t] 10),
        cache_setSimilarQuotes no_faults world0 (trim ''t'')
          (findSimilarQuotes quote_t [quote_b, quote_c, quote_t] 10)) \<and>
   findById no_faults world1 (trim ''t'') = Inr (Some quote_t) \<and>
   cache_getSimilarQuotes no_faults world1 (trim ''t'')
     = Some [\<lparr>s_quote = quote_b, s_score = 22 / 25\<rparr>] \<and>
   getSimilarQuotes no_faults world1 ''t'' 2
     = (Inr (slice0 [\<lparr>s_quote = quote_b, s_score = 22 / 25\<rparr>] 2), world1)"
proof -
  have b: "\<not> blank_id ''t''" by code_simp
  have f0: "findById no_faults world0 (trim ''t'') = Inr (Some quote_t)" by code_simp
  have c0: "cache_getSimilarQuotes no_faults world0 (trim ''t'') = None" by code_simp
  have a0: "findAll no_faults world0 = Inr [quote_b, quote_c, quote_t]" by code_simp
  have f1: "findById no_faults world1 (trim ''t'') = Inr (Some quote_t)" by code_simp
  have c1: "cache_getSimilarQuotes no_faults world1 (trim ''t'')
     = Some [\<lparr>s_quote = quote_b, s_score = 22 / 25\<rparr>]" by code_simp
  from single_tier_read_path [where f = no_faults and w = world0 and ident = "''t''" and limit = 10
      and target = quote_t and allQuotes = "[quote_b, quote_c, quote_t]"]
    single_tier_read_path [where f = no_faults and w = world1 and ident = "''t''" and limit = 2
      and target = quote_t and xs = "[\<lparr>s_quote = quote_b, s_score = 22 / 25\<rparr>]"]
    b f0 c0 a0 f1 c1
  show ?thesis by simp
qed


text \<open>
  Claim C5, as stated: the entry written to the cache does not depend on the limit of the
  request that computed it, so a later request with a larger limit can receive more
  entries. It fails in \<open>world0\<close>: the request with limit 1 caches one entry and the request
  with limit 2 caches two, and after the request with limit 1 a request with limit 2 is
  served one entry from the cache, where a computation would give two.
\<close>

theorem cached_entry_depends_on_limit_counterexample:
  "redis (snd (getSimilarQuotes no_faults world0 ''t'' 1)) ''similar:t''
     = Some (CachedSimilar [\<lparr>s_quote = quote_b, s_score = 22 / 25\<rparr>]) \<and>
   redis (snd (getSimilarQuotes no_faults world0 ''t'' 2)) ''similar:t''
     = Some (CachedSimilar [\<lparr>s_quote = quote_b, s_score = 22 / 25\<rparr>,
                            \<lparr>s_quote = quote_c, s_score = 107 / 175\<rparr>]) \<and>
   fst (getSimilarQuotes no_faults (snd (getSimilarQuotes no_faults world0 ''t'' 1)) ''t'' 2)
     = Inr [\<lparr>s_quote = quote_b, s_score = 22 / 25\<rparr>] \<and>
   fst (getSimilarQuotes no_faults world0 ''t'' 2)
     = Inr [\<lparr>s_quote = quote_b, s_score = 22 / 25\<rparr>, \<lparr>s_quote = quote_c, s_score = 107 / 175\<rparr>]"
  by code_simp

lemma cache_set_lookup:
  "\<not> redis_fails f OpSet (SIMILAR_QUOTES_PREFIX @ k) \<Longrightarrow>
   redis (cache_setSimilarQuotes f w k xs) (SIMILAR_QUOTES_PREFIX @ k) = Some (CachedSimilar xs)"
  by (simp add: cache_setSimilarQuotes_def Let_def)

lemma cache_get_lookup:
  "\<not> redis_fails f OpGet (SIMILAR_QUOTES_PREFIX @ k) \<Longrightarrow>
   redis w (SIMILAR_QUOTES_PREFIX @ k) = Some (CachedSimilar xs) \<Longrightarrow>
   cache_getSimilarQuotes f w k = Some xs"
  by (simp add: cache_getSimilarQuotes_def Let_def)

lemma slice0_length: "length (slice0 xs n) \<le> length xs"
  unfolding slice0_def by (cases "n < 0") simp_all

text \<open>
  Claim C5, amended. The entry written to the cache is the ranking truncated to the limit
  of the request that computed it, so it holds at most that many entries. A later request
  served from this entry receives the entry truncated to its own limit: never more entries
  than the entry holds, whatever its limit.
\<close>

theorem cached_entry_is_limited:
  "\<not> blank_id ident \<and> 1 \<le> limit \<and> limit \<le> 50 \<and>
   findById f w (trim ident) = Inr (Some target) \<and>
   (cache_getSimilarQuotes f w (trim ident) = None \<or>
    cache_getSimilarQuotes f w (trim ident) = Some []) \<and>
   findAll f w = Inr allQuotes \<and>
   \<not> redis_fails f OpSet (SIMILAR_QUOTES_PREFIX @ trim ident) \<and>
   w' = snd (getSimilarQuotes f w ident limit) \<and>
   entry = findSimilarQuotes target allQuotes limit
   \<longrightarrow>
     fst (getSimilarQuotes f w ident limit) = Inr entry \<and>
     redis w' (SIMILAR_QUOTES_PREFIX @ trim ident) = Some (CachedSimilar entry) \<and>
     int (length entry) \<le> limit \<and>
     (1 \<le> limit' \<and> limit' \<le> 50 \<and> entry \<noteq> [] \<and>
      findById f' w' (trim ident) = Inr (Some target') \<and>
      \<not> redis_fails f' OpGet (SIMILAR_QUOTES_PREFIX @ trim ident)
      \<longrightarrow>
        getSimilarQuotes f' w' ident limit' = (Inr (slice0 entry limit'), w') \<and>
        length (slice0 entry limit') \<le> length entry \<and>
        int (length (slice0 entry limit')) \<le> limit)"
proof (intro impI, elim conjE)
  assume h: "\<not> blank_id ident" "1 \<le> limit" "limit \<le> 50"
    "findById f w (trim ident) = Inr (Some target)"
    "cache_getSimilarQuotes f w (trim ident) = None \<or>
     cache_getSimilarQuotes f w (trim ident) = Some []"
    "findAll f w = Inr allQuotes"
    and set_ok: "\<not> redis_fails f OpSet (SIMILAR_QUOTES_PREFIX @ trim ident)"
    and w': "w' = snd (getSimilarQuotes f w ident limit)"
    and entry: "entry = findSimilarQuotes target allQuotes limit"
  have run: "getSimilarQuotes f w ident limit
               = (Inr entry, cache_setSimilarQuotes f w (trim ident) entry)"
    unfolding entry using h by (rule getSimilarQuotes_miss)
  have w'_eq: "w' = cache_setSimilarQuotes f w (trim ident) entry"
    using w' run by simp
  have stored: "redis w' (SIMILAR_QUOTES_PREFIX @ trim ident) = Some (CachedSimilar entry)"
    unfolding w'_eq using set_ok by (rule cache_set_lookup)
  have "entry = take (nat limit) (sort_key (\<lambda>s. - s_score s) (kept_candidates target allQuotes))"
    unfolding entry using h(2) by (intro findSimilarQuotes_nonneg) simp
  then have len: "int (length entry) \<le> limit"
    using h(2) by simp
  have later: "getSimilarQuotes f' w' ident limit' = (Inr (slice0 entry limit'), w') \<and>
        length (slice0 entry limit') \<le> length entry \<and>
        int (length (slice0 entry limit')) \<le> limit"
    if l: "1 \<le> limit' \<and> limit' \<le> 50 \<and> entry \<noteq> [] \<and>
      findById f' w' (trim ident) = Inr (Some target') \<and>
      \<not> redis_fails f' OpGet (SIMILAR_QUOTES_PREFIX @ trim ident)"
  proof -
    have c: "cache_getSimilarQuotes f' w' (trim ident) = Some entry"
      using l stored by (intro cache_get_lookup) simp_all
    have "getSimilarQuotes f' w' ident limit' = (Inr (slice0 entry limit'), w')"
      using h(1) l c by (intro getSimilarQuotes_hit [where target = target']) simp_all
    moreover have "length (slice0 entry limit') \<le> length entry"
      by (rule slice0_length)
    ultimately show ?thesis using len by simp
  qed
  show "fst (getSimilarQuotes f w ident limit) = Inr entry \<and>
     redis w' (SIMILAR_QUOTES_PREFIX @ trim ident) = Some (CachedSimilar entry) \<and>
     int (length entry) \<le> limit \<and>
     (1 \<le> limit' \<and> limit' \<le> 50 \<and> entry \<noteq> [] \<and>
      findById f' w' (trim ident) = Inr (Some target') \<and>
      \<not> redis_fails f' OpGet (SIMILAR_QUOTES_PREFIX @ trim ident)
      \<longrightarrow>
        getSimilarQuotes f' w' ident limit' = (Inr (slice0 entry limit'), w') \<and>
        length (slice0 entry limit') \<le> length entry \<and>
        int (length (slice0 entry limit')) \<le> limit)"
    using run stored len later by simp
qed

theorem cached_entry_is_limited_witness:
  "\<not> blank_id ''t'' \<and> findById no_faults world0 (trim ''t'') = Inr (Some quote_t) \<and>
   cache_getSimilarQuotes no_faults world0 (trim ''t'') = None \<and>
   findAll no_faults world0 = Inr [quote_b, quote_c, quote_t] \<and>
   \<not> redis_fails no_faults OpSet (SIMILAR_QUOTES_PREFIX @ trim ''t'') \<and>
   findSimilarQuotes quote_t [quote_b, quote_c, quote_t] 1 = [\<lparr>s_quote = quote_b, s_score = 22 / 25\<rparr>] \<and>
   findById no_faults (snd (getSimilarQuotes no_faults world0 ''t'' 1)) (trim ''t'') = Inr (Some quote_t) \<and>
   \<not> redis_fails no_faults OpGet (SIMILAR_QUOTES_PREFIX @ trim ''t'') \<and>
   fst (getSimilarQuotes no_faults (snd (getSimilarQuotes no_faults world0 ''t'' 1)) ''t'' 2)
     = Inr (slice0 [\<lparr>s_quote = quote_b, s_score = 22 / 25\<rparr>] 2)"
proof -
  have b: "\<not> blank_id ''t''" by code_simp
  have f0: "findById no_faults world0 (trim ''t'') = Inr (Some quote_t)" by code_simp
  have c0: "cache_getSimilarQuotes no_faults world0 (trim ''t'') = None" by code_simp
  have a0: "findAll no_faults world0 = Inr [quote_b, quote_c, quote_t]" by code_simp
  have s0: "\<not> redis_fails no_faults OpSet (SIMILAR_QUOTES_PREFIX @ trim ''t'')"
    and g0: "\<not> redis_fails no_faults OpGet (SIMILAR_QUOTES_PREFIX @ trim ''t'')"
    by (simp_all add: no_faults_def)
  have e: "findSimilarQuotes quote_t [quote_b, quote_c, quote_t] 1 = [\<lparr>s_quote = quote_b, s_score = 22 / 25\<rparr>]"
    by code_simp
  have f1: "findById no_faults (snd (getSimilarQuotes no_faults world0 ''t'' 1)) (trim ''t'') = Inr (Some quote_t)"
    by code_simp
  from cached_entry_is_limited [where f = no_faults and w = world0 and ident = "''t''" and limit = 1
      and target = quote_t and allQuotes = "[quote_b, quote_c, quote_t]"
      and w' = "snd (getSimilarQuotes no_faults world0 ''t'' 1)"
      and entry = "[\<lparr>s_quote = quote_b, s_score = 22 / 25\<rparr>]"
      and limit' = 2 and f' = no_faults and target' = quote_t]
    b f0 c0 a0 s0 g0 e f1
  show ?thesis by simp
qed


section \<open>Invalidation on like\<close>

lemma similar_key_inject [simp]:
  "SIMILAR_QUOTES_PREFIX @ a = SIMILAR_QUOTES_PREFIX @ b \<longleftrightarrow> a = b"
  by simp

lemma similar_key_other [simp]:
  "QUOTE_PREFIX @ a \<noteq> SIMILAR_QUOTES_PREFIX @ b"
  "RANDOM_QUOTE_KEY \<noteq> SIMILAR_QUOTES_PREFIX @ b"
  "SIMILAR_QUOTES_PREFIX @ b \<noteq> QUOTE_PREFIX @ a"
  "SIMILAR_QUOTES_PREFIX @ b \<noteq> RANDOM_QUOTE_KEY"
  by (simp_all add: QUOTE_PREFIX_def SIMILAR_QUOTES_PREFIX_def RANDOM_QUOTE_KEY_def)

lemma find_map_same_id:
  assumes "\<And>r. q_id (g r) = q_id r"
  shows "find (\<lambda>r. q_id r = i) (map g xs) = map_option g (find (\<lambda>r. q_id r = i) xs)"
  by (induction xs) (simp_all add: assms)

lemma find_id: "find (\<lambda>r. q_id r = i) xs = Some q \<Longrightarrow> q_id q = i"
  by (induction xs) (auto split: if_splits)

lemma invalidate_frame:
  "db_quotes (invalidateQuote f w i) = db_quotes w"
  "db_similarity (invalidateQuote f w i) = db_similarity w"
  "db_quotes (invalidateRandomQuotes f w) = db_quotes w"
  "db_similarity (invalidateRandomQuotes f w) = db_similarity w"
  by (simp_all add: invalidateQuote_def invalidateRandomQuotes_def Let_def)

lemma invalidate_similar_keys:
  "redis (invalidateRandomQuotes f w) (SIMILAR_QUOTES_PREFIX @ k) = redis w (SIMILAR_QUOTES_PREFIX @ k)"
  "k \<noteq> i \<Longrightarrow>
   redis (invalidateQuote f w i) (SIMILAR_QUOTES_PREFIX @ k) = redis w (SIMILAR_QUOTES_PREFIX @ k)"
  "\<not> redis_fails f OpDel (QUOTE_PREFIX @ i) \<Longrightarrow> \<not> redis_fails f OpDel (SIMILAR_QUOTES_PREFIX @ i) \<Longrightarrow>
   redis (invalidateQuote f w i) (SIMILAR_QUOTES_PREFIX @ i) = None"
  by (simp_all add: invalidateQuote_def invalidateRandomQuotes_def Let_def)

lemma likeQuote_success:
  assumes "likeQuote f w ident = (Inr q, w')"
  shows "\<not> blank_id ident"
    and "\<exists>q0. find (\<lambda>r. q_id r = trim ident) (db_quotes w) = Some q0 \<and>
              q = q0\<lparr>q_likes := q_likes q0 + 1\<rparr>"
    and "q_id q = trim ident"
    and "w' = invalidateRandomQuotes f
                (invalidateQuote f
                   (w\<lparr>db_quotes := map (\<lambda>r. if q_id r = trim ident
                                               then r\<lparr>q_likes := q_likes r + 1\<rparr> else r)
                                      (db_quotes w)\<rparr>)
                   (trim ident))"
proof -
  show nb: "\<not> blank_id ident"
    using assms by (auto simp: likeQuote_def)
  have inc: "incrementLikes f w (trim ident)
         = (Inr q, w\<lparr>db_quotes := map (\<lambda>r. if q_id r = trim ident
                                               then r\<lparr>q_likes := q_likes r + 1\<rparr> else r)
                                      (db_quotes w)\<rparr>) \<and>
        (\<exists>q0. find (\<lambda>r. q_id r = trim ident) (db_quotes w) = Some q0 \<and>
              q = q0\<lparr>q_likes := q_likes q0 + 1\<rparr>) \<and>
        w' = invalidateRandomQuotes f (invalidateQuote f
               (w\<lparr>db_quotes := map (\<lambda>r. if q_id r = trim ident
                                               then r\<lparr>q_likes := q_likes r + 1\<rparr> else r)
                                      (db_quotes w)\<rparr>) (q_id q))"
    using assms nb
    by (auto simp: likeQuote_def incrementLikes_def Let_def
        split: sum.splits bool.splits option.splits prod.splits if_splits)
  then show q0: "\<exists>q0. find (\<lambda>r. q_id r = trim ident) (db_quotes w) = Some q0 \<and>
              q = q0\<lparr>q_likes := q_likes q0 + 1\<rparr>"
    by blast
  then show qid: "q_id q = trim ident"
    using find_id by fastforce
  show "w' = invalidateRandomQuotes f
                (invalidateQuote f
                   (w\<lparr>db_quotes := map (\<lambda>r. if q_id r = trim ident
                                               then r\<lparr>q_likes := q_likes r + 1\<rparr> else r)
                                      (db_quotes w)\<rparr>)
                   (trim ident))"
    using inc qid by simp
qed


text \<open>
  Claim C6, as stated: a like deletes the cached similarity entry of the liked quote in
  both cache tiers. It fails in \<open>world0\<close>, where \<^verbatim>\<open>quote_similarities\<close> holds a row for the
  liked quote: the like succeeds and the row is still there.
\<close>

theorem like_keeps_persistent_rows_counterexample:
  "getCachedSimilarities no_faults world0 ''t'' 10 = Inr [\<lparr>s_quote = quote_c, s_score = 1 / 2\<rparr>] \<and>
   fst (likeQuote no_faults world0 ''t'') = Inr (quote_t\<lparr>q_likes := 1\<rparr>) \<and>
   db_similarity (snd (likeQuote no_faults world0 ''t'')) = [(''t'', ''c'', 1 / 2)] \<and>
   getCachedSimilarities no_faults (snd (likeQuote no_faults world0 ''t'')) ''t'' 10
     = Inr [\<lparr>s_quote = quote_c, s_score = 1 / 2\<rparr>]"
  by code_simp

text \<open>
  Claim C6, amended. When a like succeeds and the two Redis deletions of
  \<^verbatim>\<open>invalidateQuote\<close> do not fail, the Redis entry \<^verbatim>\<open>similar:<id>\<close> of the liked quote is
  absent afterwards and nothing is computed in its place; the entry \<^verbatim>\<open>similar:<other>\<close> of
  every other quote is unchanged; the table \<^verbatim>\<open>quote_similarities\<close> is unchanged; and the
  next \<^verbatim>\<open>getSimilarQuotes\<close> for the liked quote computes the ranking of the updated quote
  over the pool and writes it to Redis.
\<close>

theorem like_invalidates_ephemeral_entry_only:
  "likeQuote f w ident = (Inr q, w') \<and>
   \<not> redis_fails f OpDel (QUOTE_PREFIX @ trim ident) \<and>
   \<not> redis_fails f OpDel (SIMILAR_QUOTES_PREFIX @ trim ident)
   \<longrightarrow>
     q_id q = trim ident \<and>
     redis w' (SIMILAR_QUOTES_PREFIX @ trim ident) = None \<and>
     (other \<noteq> trim ident \<longrightarrow>
        redis w' (SIMILAR_QUOTES_PREFIX @ other) = redis w (SIMILAR_QUOTES_PREFIX @ other)) \<and>
     db_similarity w' = db_similarity w \<and>
     (1 \<le> limit \<and> limit \<le> 50 \<and> \<not> db_fails f' OpFindById \<and> findAll f' w' = Inr allQuotes
      \<longrightarrow>
        getSimilarQuotes f' w' ident limit
          = (Inr (findSimilarQuotes q allQuotes limit),
             cache_setSimilarQuotes f' w' (trim ident) (findSimilarQuotes q allQuotes limit)))"
proof (intro impI, elim conjE)
  assume like: "likeQuote f w ident = (Inr q, w')"
    and d1: "\<not> redis_fails f OpDel (QUOTE_PREFIX @ trim ident)"
    and d2: "\<not> redis_fails f OpDel (SIMILAR_QUOTES_PREFIX @ trim ident)"
  let ?bump = "\<lambda>r. if q_id r = trim ident then r\<lparr>q_likes := q_likes r + 1\<rparr> else r"
  let ?w1 = "w\<lparr>db_quotes := map ?bump (db_quotes w)\<rparr>"
  note s = likeQuote_success [OF like]
  obtain q0 where q0: "find (\<lambda>r. q_id r = trim ident) (db_quotes w) = Some q0"
      "q = q0\<lparr>q_likes := q_likes q0 + 1\<rparr>"
    using s(2) by blast
  have w': "w' = invalidateRandomQuotes f (invalidateQuote f ?w1 (trim ident))"
    using s(4) .
  have gone: "redis w' (SIMILAR_QUOTES_PREFIX @ trim ident) = None"
    unfolding w' using d1 d2 by (simp add: invalidate_similar_keys)
  have others: "redis w' (SIMILAR_QUOTES_PREFIX @ other) = redis w (SIMILAR_QUOTES_PREFIX @ other)"
    if "other \<noteq> trim ident"
    unfolding w' using that by (simp add: invalidate_similar_keys)
  have rows: "db_similarity w' = db_similarity w"
    unfolding w' by (simp add: invalidate_frame)
  have quotes: "db_quotes w' = map ?bump (db_quotes w)"
    unfolding w' by (simp add: invalidate_frame)
  have "q_id q0 = trim ident"
    using q0(1) by (rule find_id)
  then have found: "find (\<lambda>r. q_id r = trim ident) (db_quotes w') = Some q"
    unfolding quotes using q0 by (subst find_map_same_id) simp_all
  have recompute: "getSimilarQuotes f' w' ident limit
          = (Inr (findSimilarQuotes q allQuotes limit),
             cache_setSimilarQuotes f' w' (trim ident) (findSimilarQuotes q allQuotes limit))"
    if h: "1 \<le> limit \<and> limit \<le> 50 \<and> \<not> db_fails f' OpFindById \<and> findAll f' w' = Inr allQuotes"
  proof (rule getSimilarQuotes_miss)
    show "\<not> blank_id ident" using s(1) .
    show "1 \<le> limit" "limit \<le> 50" "findAll f' w' = Inr allQuotes" using h by simp_all
    show "findById f' w' (trim ident) = Inr (Some q)"
      using h found by (simp add: findById_def)
    show "cache_getSimilarQuotes f' w' (trim ident) = None \<or>
          cache_getSimilarQuotes f' w' (trim ident) = Some []"
      using gone by (simp add: cache_getSimilarQuotes_def Let_def)
  qed
  show "q_id q = trim ident \<and>
     redis w' (SIMILAR_QUOTES_PREFIX @ trim ident) = None \<and>
     (other \<noteq> trim ident \<longrightarrow>
        redis w' (SIMILAR_QUOTES_PREFIX @ other) = redis w (SIMILAR_QUOTES_PREFIX @ other)) \<and>
     db_similarity w' = db_similarity w \<and>
     (1 \<le> limit \<and> limit \<le> 50 \<and> \<not> db_fails f' OpFindById \<and> findAll f' w' = Inr allQuotes
      \<longrightarrow>
        getSimilarQuotes f' w' ident limit
          = (Inr (findSimilarQuotes q allQuotes limit),
             cache_setSimilarQuotes f' w' (trim ident) (findSimilarQuotes q allQuotes limit)))"
    using s(3) gone others rows recompute by blast
qed


theorem like_invalidates_ephemeral_entry_only_witness:
  "likeQuote no_faults world1 ''t''
     = (Inr (quote_t\<lparr>q_likes := 1\<rparr>), snd (likeQuote no_faults world1 ''t'')) \<and>
   \<not> redis_fails no_faults OpDel (QUOTE_PREFIX @ trim ''t'') \<and>
   \<not> redis_fails no_faults OpDel (SIMILAR_QUOTES_PREFIX @ trim ''t'') \<and>
   redis world1 (SIMILAR_QUOTES_PREFIX @ trim ''t'')
     = Some (CachedSimilar [\<lparr>s_quote = quote_b, s_score = 22 / 25\<rparr>]) \<and>
   redis (snd (likeQuote no_faults world1 ''t'')) (SIMILAR_QUOTES_PREFIX @ trim ''t'') = None \<and>
   db_similarity (snd (likeQuote no_faults world1 ''t'')) = db_similarity world1 \<and>
   findAll no_faults (snd (likeQuote no_faults world1 ''t''))
     = Inr [quote_b, quote_t\<lparr>q_likes := 1\<rparr>, quote_c] \<and>
   fst (getSimilarQuotes no_faults (snd (likeQuote no_faults world1 ''t'')) ''t'' 10)
     = Inr (findSimilarQuotes (quote_t\<lparr>q_likes := 1\<rparr>)
              [quote_b, quote_t\<lparr>q_likes := 1\<rparr>, quote_c] 10)"
proof -
  have r: "fst (likeQuote no_faults world1 ''t'') = Inr (quote_t\<lparr>q_likes := 1\<rparr>)"
    by code_simp
  have like: "likeQuote no_faults world1 ''t''
     = (Inr (quote_t\<lparr>q_likes := 1\<rparr>), snd (likeQuote no_faults world1 ''t''))"
    using r by (metis prod.collapse)
  have d: "\<not> redis_fails no_faults OpDel (QUOTE_PREFIX @ trim ''t'')"
    "\<not> redis_fails no_faults OpDel (SIMILAR_QUOTES_PREFIX @ trim ''t'')"
    "\<not> db_fails no_faults OpFindById"
    by (simp_all add: no_faults_def)
  have before: "redis world1 (SIMILAR_QUOTES_PREFIX @ trim ''t'')
     = Some (CachedSimilar [\<lparr>s_quote = quote_b, s_score = 22 / 25\<rparr>])"
    by code_simp
  have all: "findAll no_faults (snd (likeQuote no_faults world1 ''t''))
     = Inr [quote_b, quote_t\<lparr>q_likes := 1\<rparr>, quote_c]"
    by code_simp
  from like_invalidates_ephemeral_entry_only [where f = no_faults and w = world1 and ident = "''t''"
      and q = "quote_t\<lparr>q_likes := 1\<rparr>" and w' = "snd (likeQuote no_faults world1 ''t'')"
      and limit = 10 and f' = no_faults
      and allQuotes = "[quote_b, quote_t\<lparr>q_likes := 1\<rparr>, quote_c]"]
    like d before all
  show ?thesis by simp
qed

text \<open>
  The hypothesis on the deletions cannot be dropped. \<^verbatim>\<open>invalidateQuote\<close> swallows a failure
  of Redis: when Redis is down the like still succeeds, the entry stays, and once Redis is
  back the next request is served the old entry of one quote where a computation gives two.
\<close>

lemma failed_deletion_keeps_entry:
  "fst (likeQuote redis_down world1 ''t'') = Inr (quote_t\<lparr>q_likes := 1\<rparr>) \<and>
   redis (snd (likeQuote redis_down world1 ''t'')) ''similar:t''
     = Some (CachedSimilar [\<lparr>s_quote = quote_b, s_score = 22 / 25\<rparr>]) \<and>
   fst (getSimilarQuotes no_faults (snd (likeQuote redis_down world1 ''t'')) ''t'' 10)
     = Inr [\<lparr>s_quote = quote_b, s_score = 22 / 25\<rparr>] \<and>
   fst (getSimilarQuotes no_faults (snd (likeQuote no_faults world1 ''t'')) ''t'' 10)
     = Inr [\<lparr>s_quote = quote_b, s_score = 22 / 25\<rparr>, \<lparr>s_quote = quote_c, s_score = 107 / 175\<rparr>]"
  by code_simp

section \<open>Errors of the similarity request\<close>

text \<open>
  Claim C7, as stated: a failure of the pool fetch is recovered and never surfaced. It fails
  when only \<^verbatim>\<open>findAll\<close> fails: the id is known, the limit is 10 and the request ends in a
  \<^verbatim>\<open>DATABASE_ERROR\<close>.
\<close>

theorem pool_fetch_failure_surfaces_counterexample:
  "\<not> blank_id ''t'' \<and> (1::int) \<le> 10 \<and> (10::int) \<le> 50 \<and>
   findById findAll_down world0 (trim ''t'') = Inr (Some quote_t) \<and>
   fst (getSimilarQuotes findAll_down world0 ''t'' 10) = Inl (QuoteServiceError DATABASE_ERROR 500)"
  by code_simp

text \<open>
  Claim C7, amended. \<^verbatim>\<open>getSimilarQuotes\<close> ends in a validation error when the id is blank
  or the limit is outside 1 to 50, in a database error when the lookup of the target
  fails, in a not-found error when the id is unknown, and in a database error when the
  cache misses and the fetch of the pool fails; otherwise it returns a ranking. Failures of
  Redis never surface: when neither database call fails, the request ends in an error
  exactly when the id is blank, the limit is out of range or the id is unknown.
\<close>

theorem getSimilarQuotes_errors:
  "fst (getSimilarQuotes f w ident limit) =
     (if blank_id ident \<or> limit \<le> 0 \<or> limit > 50 then Inl validation_error
      else if db_fails f OpFindById then Inl database_error
      else case find (\<lambda>q. q_id q = trim ident) (db_quotes w) of
             None \<Rightarrow> Inl not_found_error
           | Some target \<Rightarrow>
               (case cache_getSimilarQuotes f w (trim ident) of
                  Some (x # xs) \<Rightarrow> Inr (slice0 (x # xs) limit)
                | _ \<Rightarrow>
                    if db_fails f OpFindAll then Inl database_error
                    else Inr (findSimilarQuotes target
                                (sort_key (\<lambda>q. - int (q_likes q)) (db_quotes w)) limit))) \<and>
   (\<not> db_fails f OpFindById \<and> \<not> db_fails f OpFindAll \<longrightarrow>
      (isl (fst (getSimilarQuotes f w ident limit)) \<longleftrightarrow>
         blank_id ident \<or> limit \<le> 0 \<or> limit > 50 \<or>
         find (\<lambda>q. q_id q = trim ident) (db_quotes w) = None))"
  by (auto simp: getSimilarQuotes_def findById_def findAll_def Let_def
      split: option.splits list.splits sum.splits)

theorem getSimilarQuotes_errors_witness:
  "\<not> db_fails redis_down OpFindById \<and> \<not> db_fails redis_down OpFindAll \<and>
   \<not> blank_id ''t'' \<and>
   find (\<lambda>q. q_id q = trim ''t'') (db_quotes world1) = Some quote_t \<and>
   \<not> isl (fst (getSimilarQuotes redis_down world1 ''t'' 10)) \<and>
   isl (fst (getSimilarQuotes redis_down world1 ''t'' 51)) \<and>
   isl (fst (getSimilarQuotes redis_down world1 ''zz'' 10))"
proof -
  have d: "\<not> db_fails redis_down OpFindById" "\<not> db_fails redis_down OpFindAll"
    by (simp_all add: redis_down_def)
  have b: "\<not> blank_id ''t''" "\<not> blank_id ''zz''" by code_simp+
  have f: "find (\<lambda>q. q_id q = trim ''t'') (db_quotes world1) = Some quote_t"
    "find (\<lambda>q. q_id q = trim ''zz'') (db_quotes world1) = None"
    by code_simp+
  from getSimilarQuotes_errors [where f = redis_down and w = world1 and ident = "''t''" and limit = 10,
        THEN conjunct2]
    getSimilarQuotes_errors [where f = redis_down and w = world1 and ident = "''t''" and limit = 51,
        THEN conjunct2]
    getSimilarQuotes_errors [where f = redis_down and w = world1 and ident = "''zz''" and limit = 10,
        THEN conjunct2]
    d b f
  show ?thesis by simp
qed


end
